theory Spec2Isabelle
  imports Main "HOL-Library.Multiset" "HOL-Library.Sublist" "HOL-Library.AList"
begin

section \<open>The element tree\<close>

text \<open>
  \<^verbatim>\<open>mhtml_to_json.py\<close> works on an lxml element tree. An element has a tag, an attribute
  dictionary, the text before its first child (\<^verbatim>\<open>.text\<close>, \<^verbatim>\<open>None\<close> when there is none), its
  child elements in document order, and the text that follows its closing tag (\<^verbatim>\<open>.tail\<close>).
  Text is a field of an element, never a child: \<^verbatim>\<open>for child in node\<close> runs over elements only.
  A comment or processing instruction is an element without attributes and children whose tag
  is not a string; here it is a node whose tag is outside every tag list.
\<close>

datatype node =
  Node (tag: string) (attrs: "(string \<times> string) list") (node_text: "string option")
       (children: "node list") (node_tail: "string option")

text \<open>\<^verbatim>\<open>node.get(k)\<close> and \<^verbatim>\<open>k in node.keys()\<close>.\<close>

definition get :: "node \<Rightarrow> string \<Rightarrow> string option" where
  "get n k = map_of (attrs n) k"

definition has_key :: "node \<Rightarrow> string \<Rightarrow> bool" where
  "has_key n k = (get n k \<noteq> None)"

text \<open>Python's \<^verbatim>\<open>p in s\<close> on strings: \<open>p\<close> occurs in \<open>s\<close> as a contiguous substring.\<close>

fun str_contains :: "string \<Rightarrow> string \<Rightarrow> bool" where
  "str_contains p [] = (p = [])"
| "str_contains p (c # cs) = (prefix p (c # cs) \<or> str_contains p cs)"

section \<open>Itemprop locator\<close>

text \<open>
  \<^verbatim>\<open>
  def find_itemprop(node, prop):
      if "itemprop" in node.keys():
          if prop in node.get("itemprop"):
              return node
      for child in node:
          value = find_itemprop(child, prop)
          if value is not None:
              return value
      return None
  \<close>
\<close>

definition itemprop_matches :: "node \<Rightarrow> string \<Rightarrow> bool" where
  "itemprop_matches n prop =
     (case get n ''itemprop'' of None \<Rightarrow> False | Some v \<Rightarrow> str_contains prop v)"

fun find_itemprop :: "node \<Rightarrow> string \<Rightarrow> node option"
  and find_itemprop_children :: "node list \<Rightarrow> string \<Rightarrow> node option" where
  "find_itemprop (Node tg ats tx cs ta) prop =
     (if itemprop_matches (Node tg ats tx cs ta) prop then Some (Node tg ats tx cs ta)
      else find_itemprop_children cs prop)"
| "find_itemprop_children [] prop = None"
| "find_itemprop_children (child # rest) prop =
     (case find_itemprop child prop of
        Some v \<Rightarrow> Some v
      | None \<Rightarrow> find_itemprop_children rest prop)"

text \<open>Document order: a node, then the subtrees of its children from left to right.\<close>

fun preorder :: "node \<Rightarrow> node list" where
  "preorder (Node tg ats tx cs ta) = Node tg ats tx cs ta # concat (map preorder cs)"

section \<open>Language voter\<close>

text \<open>
  \<^verbatim>\<open>
  def predict_majority_language(languages):
      frequency = {}
      for language in languages:
          if language in frequency:
              frequency[language] += 1
          else:
              frequency[language] = 1
      language, appearances = "-", 0
      for key in frequency.keys():
          if frequency[key] > appearances:
              appearances = frequency[key]
              language = key
      return language
  \<close>
  The dictionary \<^verbatim>\<open>frequency\<close> is an association list: a Python dictionary iterates its keys
  in the order of their first insertion, and \<open>AList.update\<close> overwrites a key in place and
  appends a new one at the end.
\<close>

fun tally :: "(string \<times> nat) list \<Rightarrow> string list \<Rightarrow> (string \<times> nat) list" where
  "tally frequency [] = frequency"
| "tally frequency (language # rest) =
     tally (case map_of frequency language of
              Some c \<Rightarrow> AList.update language (c + 1) frequency
            | None \<Rightarrow> AList.update language 1 frequency) rest"

text \<open>The second loop; each key comes with the count stored under it.\<close>

fun pick :: "string \<times> nat \<Rightarrow> (string \<times> nat) list \<Rightarrow> string \<times> nat" where
  "pick best [] = best"
| "pick (language, appearances) ((key, c) # rest) =
     (if c > appearances then pick (key, c) rest else pick (language, appearances) rest)"

definition predict_majority_language :: "string list \<Rightarrow> string" where
  "predict_majority_language languages = fst (pick (''-'', 0) (tally [] languages))"

text \<open>The labels of a list in the order of their first occurrence.\<close>

fun first_occ :: "'a list \<Rightarrow> 'a list" where
  "first_occ [] = []"
| "first_occ (x # xs) = x # removeAll x (first_occ xs)"

section \<open>Tag sanitizer\<close>

text \<open>
  \<^verbatim>\<open>
  def remove_all_but_text_nodes(node, valid_tags):
      for child in node:
          remove_all_but_text_nodes(child, valid_tags)
      if node.tag not in valid_tags and "itemprop" not in node.keys():
          for valid_child in node:
              node.addnext(valid_child)
          if node.getparent() is not None:
              node.getparent().remove(node)
  \<close>
  lxml's child iterator fetches the following sibling before it hands out a child, so the
  loops visit every child that was there when they reached it, also when the body moves or
  removes the child. \<^verbatim>\<open>node.addnext(c)\<close> takes \<open>c\<close>, with its subtree and its tail, out of its
  place and puts it directly behind \<open>node\<close>; the children of a spliced node therefore end up
  behind one another in reverse order. \<^verbatim>\<open>parent.remove(node)\<close> takes \<open>node\<close> out with its text
  and its tail.

  \<open>remove_all_but_text_nodes valid_tags n\<close> is the call on a node that has a parent: the
  result is the list of nodes that stand in the place of \<open>n\<close> among the children of its parent
  when the call returns.
\<close>

definition keeps :: "string list \<Rightarrow> node \<Rightarrow> bool" where
  "keeps valid_tags n = (tag n \<in> set valid_tags \<or> has_key n ''itemprop'')"

fun remove_all_but_text_nodes :: "string list \<Rightarrow> node \<Rightarrow> node list" where
  "remove_all_but_text_nodes valid_tags (Node tg ats tx cs ta) =
     (let cs' = concat (map (remove_all_but_text_nodes valid_tags) cs) in
      if tg \<notin> set valid_tags \<and> \<not> has_key (Node tg ats tx cs ta) ''itemprop''
      then rev cs'
      else [Node tg ats tx cs' ta])"

definition valid_tags :: "string list" where
  "valid_tags =
     [''blockquote'', ''dd'', ''div'', ''dl'', ''dt'', ''figcaption'', ''hr'', ''li'', ''ol'',
      ''p'', ''pre'', ''ul'', ''h1'', ''h2'', ''h3'', ''h4'', ''h5'', ''h6'', ''a'', ''abbr'',
      ''b'', ''bdi'', ''bdo'', ''br'', ''cite'', ''code'', ''data'', ''dfn'', ''em'', ''i'',
      ''kbd'', ''mark'', ''q'', ''rb'', ''rp'', ''rt'', ''rtc'', ''ruby'', ''s'', ''samp'',
      ''small'', ''span'', ''strong'', ''sub'', ''sup'', ''time'', ''u'', ''var'', ''wbr'',
      ''caption'', ''col'', ''colgroup'', ''table'', ''tbody'', ''td'', ''tfoot'', ''th'',
      ''thead'', ''tr'']"

datatype error = TypeError | KeyError | UnboundLocalError

text \<open>
  \<^verbatim>\<open>
  def text_cleanup(node):
      valid_tags = [...]
      remove_all_but_text_nodes(node, valid_tags)
      return node
  \<close>
  The call on the root of the cleanup, and the node object it returns. A root that passes the
  test of line 253 stays where it is and keeps its sanitized children. A root that fails it
  loses its children to its parent and is taken out of the tree. A node without a parent is
  the root element of its document, and there lxml's \<^verbatim>\<open>addnext\<close> refuses an element as a
  sibling with a \<^verbatim>\<open>TypeError\<close>; without children left nothing is called and nothing happens.
\<close>

definition sanitized :: "node \<Rightarrow> node" where
  "sanitized n =
     Node (tag n) (attrs n) (node_text n)
          (concat (map (remove_all_but_text_nodes valid_tags) (children n))) (node_tail n)"

definition text_cleanup :: "bool \<Rightarrow> node \<Rightarrow> error + node" where
  "text_cleanup has_parent n =
     (if tag n \<notin> set valid_tags \<and> \<not> has_key n ''itemprop'' then
        (if children (sanitized n) = [] \<or> has_parent
         then Inr (Node (tag n) (attrs n) (node_text n) [] (node_tail n))
         else Inl TypeError)
      else Inr (sanitized n))"

text \<open>What a node carries itself, and all the text of a subtree.\<close>

definition label :: "node \<Rightarrow> string \<times> (string \<times> string) list \<times> string option \<times> string option" where
  "label n = (tag n, attrs n, node_text n, node_tail n)"

fun texts :: "node \<Rightarrow> string option list" where
  "texts (Node tg ats tx cs ta) = tx # concat (map texts cs) @ [ta]"

text \<open>Every node of the subtree passes the test.\<close>

fun clean :: "string list \<Rightarrow> node \<Rightarrow> bool" where
  "clean vt (Node tg ats tx cs ta) =
     ((tg \<in> set vt \<or> has_key (Node tg ats tx cs ta) ''itemprop'') \<and> list_all (clean vt) cs)"

section \<open>Serialization of markup\<close>

text \<open>
  \<^verbatim>\<open>
  def turn_into_string(node):
      text_string = lxml.html.tostring(node).decode("utf-8")
      text_string = text_string[text_string.find(">") + 1 :]
      text_string = text_string[: text_string.rfind("</")]
      return text_string
  \<close>
  lxml's serializer is a parameter, \<open>tostring\<close>. \<open>str_find\<close> and \<open>str_rfind\<close> are Python's
  \<^verbatim>\<open>str.find\<close> and \<^verbatim>\<open>str.rfind\<close> (\<open>-1\<close> when there is no occurrence); the slices count a
  negative bound from the end, as Python does.
\<close>

fun str_find :: "string \<Rightarrow> string \<Rightarrow> int" where
  "str_find [] sub = (if sub = [] then 0 else - 1)"
| "str_find (c # cs) sub =
     (if prefix sub (c # cs) then 0
      else (let r = str_find cs sub in if r < 0 then - 1 else r + 1))"

fun str_rfind :: "string \<Rightarrow> string \<Rightarrow> int" where
  "str_rfind [] sub = (if sub = [] then 0 else - 1)"
| "str_rfind (c # cs) sub =
     (let r = str_rfind cs sub in
      if 0 \<le> r then r + 1 else if prefix sub (c # cs) then 0 else - 1)"

definition slice_bound :: "string \<Rightarrow> int \<Rightarrow> nat" where
  "slice_bound s i = nat (if i < 0 then max 0 (int (length s) + i) else i)"

definition slice_from :: "string \<Rightarrow> int \<Rightarrow> string" where
  "slice_from s i = drop (slice_bound s i) s"

definition slice_to :: "string \<Rightarrow> int \<Rightarrow> string" where
  "slice_to s j = take (slice_bound s j) s"

definition turn_into_string :: "(node \<Rightarrow> string) \<Rightarrow> node \<Rightarrow> string" where
  "turn_into_string tostring n =
     (let text_string = tostring n;
          text_string = slice_from text_string (str_find text_string ''>'' + 1);
          text_string = slice_to text_string (str_rfind text_string ''</'')
      in text_string)"

section \<open>Entity field collectors\<close>

text \<open>
  A collected record is a Python dictionary with string keys whose values are strings or
  \<^verbatim>\<open>None\<close>, kept in insertion order. \<^verbatim>\<open>d[k] = v\<close> is \<open>AList.update k v d\<close>.
\<close>

type_synonym fields = "(string \<times> string option) list"

text \<open>
  \<open>text_cleanup\<close> works in place on the node that \<open>find_itemprop\<close> returned, and the searches
  that follow run on the tree as the cleanup left it. \<open>update_itemprop f n prop\<close> is the tree
  \<open>n\<close> with \<open>f\<close> applied to the node that \<open>find_itemprop n prop\<close> returns. That node carries an
  \<^verbatim>\<open>itemprop\<close> attribute, so \<open>text_cleanup\<close> leaves it in its place as \<open>sanitized\<close> of it
  (lemma \<open>text_cleanup_located\<close>).
\<close>

fun update_itemprop :: "(node \<Rightarrow> node) \<Rightarrow> node \<Rightarrow> string \<Rightarrow> node"
  and update_itemprop_children :: "(node \<Rightarrow> node) \<Rightarrow> node list \<Rightarrow> string \<Rightarrow> node list" where
  "update_itemprop f (Node tg ats tx cs ta) prop =
     (if itemprop_matches (Node tg ats tx cs ta) prop then f (Node tg ats tx cs ta)
      else Node tg ats tx (update_itemprop_children f cs prop) ta)"
| "update_itemprop_children f [] prop = []"
| "update_itemprop_children f (child # rest) prop =
     (case find_itemprop child prop of
        Some v \<Rightarrow> update_itemprop f child prop # rest
      | None \<Rightarrow> child # update_itemprop_children f rest prop)"

text \<open>
  The three shapes of a step of a collector, on the pair of the tree and the record so far.
  \<^verbatim>\<open>
      text_node = find_itemprop(node, "text")
      if text_node is not None:
          text_node = text_cleanup(text_node)
          question["text_markup"] = turn_into_string(text_node)
  \<close>
\<close>

definition markup_field ::
  "(node \<Rightarrow> string) \<Rightarrow> string \<Rightarrow> string \<Rightarrow> node \<times> fields \<Rightarrow> node \<times> fields" where
  "markup_field tostring prop key s =
     (case find_itemprop (fst s) prop of
        None \<Rightarrow> s
      | Some m \<Rightarrow>
          (update_itemprop sanitized (fst s) prop,
           AList.update key (Some (turn_into_string tostring (sanitized m))) (snd s)))"

text \<open>
  \<^verbatim>\<open>
      date_created = find_itemprop(node, "dateCreated")
      if date_created is not None:
          date_created = date_created.get("datetime")
          question["date_created"] = date_created
  \<close>
\<close>

definition datetime_field :: "string \<Rightarrow> string \<Rightarrow> node \<times> fields \<Rightarrow> node \<times> fields" where
  "datetime_field prop key s =
     (case find_itemprop (fst s) prop of
        None \<Rightarrow> s
      | Some m \<Rightarrow> (fst s, AList.update key (get m ''datetime'') (snd s)))"

text \<open>
  \<^verbatim>\<open>
      upvote_count = find_itemprop(node, "upvoteCount")
      if upvote_count is not None:
          if upvote_count.tag == "meta":
              upvote_count = upvote_count.get("content")
          else:
              upvote_count = upvote_count.text
          question["upvote_count"] = upvote_count
  \<close>
\<close>

definition content_or_text :: "node \<Rightarrow> string option" where
  "content_or_text m = (if tag m = ''meta'' then get m ''content'' else node_text m)"

definition count_field :: "string \<Rightarrow> string \<Rightarrow> node \<times> fields \<Rightarrow> node \<times> fields" where
  "count_field prop key s =
     (case find_itemprop (fst s) prop of
        None \<Rightarrow> s
      | Some m \<Rightarrow> (fst s, AList.update key (content_or_text m) (snd s)))"

text \<open>\<open>collect_question\<close>, lines 21 to 85: the tree as the call leaves it, and the record.\<close>

definition collect_question :: "(node \<Rightarrow> string) \<Rightarrow> node \<Rightarrow> node \<times> fields" where
  "collect_question tostring node =
     (let s = (node, []);
          s = markup_field tostring ''name'' ''name_markup'' s;
          s = markup_field tostring ''text'' ''text_markup'' s;
          s = datetime_field ''dateCreated'' ''date_created'' s;
          s = datetime_field ''dateModified'' ''date_modified'' s;
          s = datetime_field ''datePublished'' ''date_published'' s;
          s = count_field ''upvoteCount'' ''upvote_count'' s;
          s = count_field ''downvoteCount'' ''downvote_count'' s;
          s = count_field ''commentCount'' ''comment_count'' s;
          s = count_field ''answerCount'' ''answer_count'' s
      in s)"

text \<open>
  \<open>collect_answer\<close>, lines 88 to 141. After the text,
  \<^verbatim>\<open>
      suggested_accepted = node.get("itemprop")
      answer["status"] = suggested_accepted
  \<close>
\<close>

definition status_field :: "node \<times> fields \<Rightarrow> node \<times> fields" where
  "status_field s = (fst s, AList.update ''status'' (get (fst s) ''itemprop'') (snd s))"

definition collect_answer :: "(node \<Rightarrow> string) \<Rightarrow> node \<Rightarrow> node \<times> fields" where
  "collect_answer tostring node =
     (let s = (node, []);
          s = markup_field tostring ''text'' ''text_markup'' s;
          s = status_field s;
          s = datetime_field ''dateCreated'' ''date_created'' s;
          s = datetime_field ''dateModified'' ''date_modified'' s;
          s = datetime_field ''datePublished'' ''date_published'' s;
          s = count_field ''upvoteCount'' ''upvote_count'' s;
          s = count_field ''downvoteCount'' ''downvote_count'' s;
          s = count_field ''commentCount'' ''comment_count'' s
      in s)"

text \<open>
  \<^verbatim>\<open>
  def collect_person(node):
      person = {}
      relevant_node = find_itemprop(node, "name")
      if relevant_node is None:
          # If name not defined, try author, which seems to be used sometimes
          relevant_node = find_itemprop(node, "author")
          if relevant_node is None:
              return None
      else:
          if relevant_node.tag == "meta":
              person["author"] = relevant_node.get("content")
          else:
              person["author"] = relevant_node.text
          return person
  \<close>
  When the search for \<^verbatim>\<open>name\<close> fails and the search for \<^verbatim>\<open>author\<close> succeeds, control leaves
  the first branch of the outer \<^verbatim>\<open>if\<close> and reaches the end of the function, which in Python
  returns \<^verbatim>\<open>None\<close>.
\<close>

definition collect_person :: "node \<Rightarrow> fields option" where
  "collect_person node =
     (case find_itemprop node ''name'' of
        None \<Rightarrow>
          (case find_itemprop node ''author'' of
             None \<Rightarrow> None
           | Some relevant_node \<Rightarrow> None)
      | Some relevant_node \<Rightarrow> Some [(''author'', content_or_text relevant_node)])"

section \<open>Entity tree walker\<close>

text \<open>
  A JSON context: the entries with a string or \<^verbatim>\<open>None\<close> as value, and the list under the
  key \<^verbatim>\<open>Answers\<close> when the dictionary has that key. Only the literal \<^verbatim>\<open>{"Answers": []}\<close> of
  \<open>generate_structured_json\<close> writes that key; no collector produces it.
\<close>

datatype jobj = JObj (entries: fields) (answers: "jobj list option")

definition has_entry :: "jobj \<Rightarrow> string \<Rightarrow> bool" where
  "has_entry j k = (map_of (entries j) k \<noteq> None)"

text \<open>\<^verbatim>\<open>json_context.update(element)\<close>.\<close>

definition dict_update :: "jobj \<Rightarrow> fields \<Rightarrow> jobj" where
  "dict_update j element = JObj (fold (\<lambda>(k, v). AList.update k v) element (entries j)) (answers j)"

definition itemtype_contains :: "node \<Rightarrow> string \<Rightarrow> bool" where
  "itemtype_contains n t =
     (case get n ''itemtype'' of None \<Rightarrow> False | Some v \<Rightarrow> str_contains t v)"

text \<open>
  \<^verbatim>\<open>
      if node.getparent() is not None:
          node.getparent().remove(node)
  \<close>
  \<open>None\<close>: the node is no longer among the children of its parent.
\<close>

definition detach :: "bool \<Rightarrow> node \<Rightarrow> node option" where
  "detach has_parent n = (if has_parent then None else Some n)"

text \<open>
  \<^verbatim>\<open>
  def get_all_questions(node, question_list):
      if "itemtype" in node.keys():
          if "//schema.org/Question" in node.get("itemtype"):
              question_list.append(node)
              return
      for child in node:
          get_all_questions(child, question_list)
  \<close>
\<close>

fun get_all_questions :: "node \<Rightarrow> node list" where
  "get_all_questions (Node tg ats tx cs ta) =
     (if itemtype_contains (Node tg ats tx cs ta) ''//schema.org/Question''
      then [Node tg ats tx cs ta]
      else concat (map get_all_questions cs))"

text \<open>
  \<^verbatim>\<open>
  def search_tree(node, json_context):
      if "itemtype" in node.keys() and "//schema.org/Answer" in node.get("itemtype"):
          if "Answers" not in json_context.keys():
              # Stacked question (not in the schema.org definition)
              if node.getparent() is not None:
                  node.getparent().remove(node)
              return
          else:
              json_context["Answers"].append({})
              json_context = json_context["Answers"][-1]
      for child in node:
          search_tree(child, json_context)
      if "itemtype" in node.keys():
          if "//schema.org/Question" in node.get("itemtype"):
              if "Answers" not in json_context.keys():
                  # Stacked question (not in the schema.org definition)
                  if node.getparent() is not None:
                      node.getparent().remove(node)
                  return
              else:
                  element = collect_question(node)
                  json_context.update(element)
              if node.getparent() is not None:
                  node.getparent().remove(node)
          elif "//schema.org/Answer" in node.get("itemtype"):
              element = collect_answer(node)
              json_context.update(element)
              if node.getparent() is not None:
                  node.getparent().remove(node)
          elif "//schema.org/Person" in node.get("itemtype"):
              element = collect_person(node)
              if element is not None:
                  json_context.update(element)
              if node.getparent() is not None:
                  node.getparent().remove(node)
  \<close>
  The call returns what is left of the node in its place (\<open>None\<close> when it was removed from its
  parent) and the context it was given, as the call leaves it. Below an Answer node the local
  name \<^verbatim>\<open>json_context\<close> is the dictionary appended last; the caller's dictionary is reached
  through no other name during the call, so it is the caller's context with that dictionary,
  as the call leaves it, at the end of its \<^verbatim>\<open>Answers\<close>.

  \<open>search_tree_post_order\<close> is the part after the loop over the children, on the node with
  the children the loop left.
\<close>

definition search_tree_post_order ::
  "(node \<Rightarrow> string) \<Rightarrow> bool \<Rightarrow> node \<Rightarrow> jobj \<Rightarrow> node option \<times> jobj" where
  "search_tree_post_order tostring has_parent node json_context =
     (if itemtype_contains node ''//schema.org/Question'' then
        (case answers json_context of
           None \<Rightarrow> (detach has_parent node, json_context)
         | Some as \<Rightarrow>
             (case collect_question tostring node of
                (node', element) \<Rightarrow> (detach has_parent node', dict_update json_context element)))
      else if itemtype_contains node ''//schema.org/Answer'' then
        (case collect_answer tostring node of
           (node', element) \<Rightarrow> (detach has_parent node', dict_update json_context element))
      else if itemtype_contains node ''//schema.org/Person'' then
        (case collect_person node of
           None \<Rightarrow> (detach has_parent node, json_context)
         | Some element \<Rightarrow> (detach has_parent node, dict_update json_context element))
      else (Some node, json_context))"

fun search_tree :: "(node \<Rightarrow> string) \<Rightarrow> bool \<Rightarrow> node \<Rightarrow> jobj \<Rightarrow> node option \<times> jobj"
  and search_children :: "(node \<Rightarrow> string) \<Rightarrow> node list \<Rightarrow> jobj \<Rightarrow> node list \<times> jobj" where
  "search_tree tostring has_parent (Node tg ats tx cs ta) json_context =
     (if itemtype_contains (Node tg ats tx cs ta) ''//schema.org/Answer'' then
        (case answers json_context of
           None \<Rightarrow> (detach has_parent (Node tg ats tx cs ta), json_context)
         | Some as \<Rightarrow>
             (case search_children tostring cs (JObj [] None) of
                (cs', answer) \<Rightarrow>
                  (case search_tree_post_order tostring has_parent (Node tg ats tx cs' ta) answer of
                     (r, answer') \<Rightarrow> (r, JObj (entries json_context) (Some (as @ [answer']))))))
      else
        (case search_children tostring cs json_context of
           (cs', json_context') \<Rightarrow>
             search_tree_post_order tostring has_parent (Node tg ats tx cs' ta) json_context'))"
| "search_children tostring [] json_context = ([], json_context)"
| "search_children tostring (child # rest) json_context =
     (case search_tree tostring True child json_context of
        (r, json_context') \<Rightarrow>
          (case search_children tostring rest json_context' of
             (rs, json_context'') \<Rightarrow>
               ((case r of None \<Rightarrow> rs | Some c \<Rightarrow> c # rs), json_context'')))"

section \<open>Retention filter and question language\<close>

text \<open>
  \<^verbatim>\<open>
  def has_at_least_Q_or_A(json_question):
      if "name_markup" in json_question.keys() or "text_markup" in json_question.keys():
          return True
      for answer in json_question["Answers"]:
          if "text_markup" in answer.keys():
              return True
      return False
  \<close>
  \<^verbatim>\<open>json_question["Answers"]\<close> raises \<^verbatim>\<open>KeyError\<close> on a dictionary without that key.
\<close>

fun some_answer_has_text :: "jobj list \<Rightarrow> bool" where
  "some_answer_has_text [] = False"
| "some_answer_has_text (answer # rest) =
     (if has_entry answer ''text_markup'' then True else some_answer_has_text rest)"

definition has_at_least_Q_or_A :: "jobj \<Rightarrow> error + bool" where
  "has_at_least_Q_or_A json_question =
     (if has_entry json_question ''name_markup'' \<or> has_entry json_question ''text_markup''
      then Inr True
      else (case answers json_question of
              None \<Rightarrow> Inl KeyError
            | Some as \<Rightarrow> Inr (some_answer_has_text as)))"

text \<open>
  \<^verbatim>\<open>
  def predict_question_language(json_question, ft_model):
      if "text_markup" in json_question.keys():
          language = ft_model.predict(html.unescape(json_question["text_markup"]))[0][
              0
          ].replace("__label__", "")
      elif "name_markup" in json_question.keys():
          language = ft_model.predict(html.unescape(json_question["name_markup"]))[0][
              0
          ].replace("__label__", "")
      else:
          for answer in json_question["Answers"]:
              if "text_markup" in answer.keys():
                  language = ft_model.predict(html.unescape(answer["text_markup"]))[0][
                      0
                  ].replace("__label__", "")
                  break
      return language
  \<close>
  The classifier is a parameter: \<open>classify s\<close> stands for
  \<^verbatim>\<open>ft_model.predict(html.unescape(s))[0][0].replace("__label__", "")\<close> on a string \<open>s\<close>.
  \<^verbatim>\<open>html.unescape(None)\<close> raises \<^verbatim>\<open>TypeError\<close>. When the loop ends without a hit,
  \<^verbatim>\<open>return language\<close> reads a local variable that was never bound: \<^verbatim>\<open>UnboundLocalError\<close>.
\<close>

definition predict_markup :: "(string \<Rightarrow> string) \<Rightarrow> jobj \<Rightarrow> string \<Rightarrow> error + string" where
  "predict_markup classify j key =
     (case map_of (entries j) key of
        Some (Some s) \<Rightarrow> Inr (classify s)
      | Some None \<Rightarrow> Inl TypeError
      | None \<Rightarrow> Inl KeyError)"

fun first_answer_language :: "(string \<Rightarrow> string) \<Rightarrow> jobj list \<Rightarrow> error + string" where
  "first_answer_language classify [] = Inl UnboundLocalError"
| "first_answer_language classify (answer # rest) =
     (if has_entry answer ''text_markup'' then predict_markup classify answer ''text_markup''
      else first_answer_language classify rest)"

definition predict_question_language :: "(string \<Rightarrow> string) \<Rightarrow> jobj \<Rightarrow> error + string" where
  "predict_question_language classify json_question =
     (if has_entry json_question ''text_markup''
      then predict_markup classify json_question ''text_markup''
      else if has_entry json_question ''name_markup''
      then predict_markup classify json_question ''name_markup''
      else (case answers json_question of
              None \<Rightarrow> Inl KeyError
            | Some as \<Rightarrow> first_answer_language classify as))"

section \<open>Record assembler\<close>

text \<open>
  The body of the loop over the pages in \<open>generate_structured_json\<close>, lines 359 to 392, from
  the parsed page on:
  \<^verbatim>\<open>
      html_questions, json_questions, questions_language = [], [], []
      get_all_questions(html_root, html_questions)
      for html_question in html_questions:
          json_question = {"Answers": []}
          search_tree(html_question, json_question)
          # Remove everything that does not have a question name || question text || answer text for the same instance
          has_Q_or_A = has_at_least_Q_or_A(json_question)
          if has_Q_or_A:
              questions_language.append(
                  predict_question_language(json_question, ft_model)
              )
              json_questions.append(json_question)
      if len(json_questions) > 0:
          question_uuid = str(uuid.uuid4())
          predicted_language = predict_majority_language(questions_language)
          json_record = json.dumps({...})
          g.write(json_record + "\n")
  \<close>
  The question nodes that \<open>get_all_questions\<close> finds lie in disjoint subtrees, and a walk
  changes nothing outside the subtree of its node, so each walk starts on its node as the
  page has it. A question node has no parent only when it is the root of the page.
\<close>

definition build_question :: "(node \<Rightarrow> string) \<Rightarrow> bool \<Rightarrow> node \<Rightarrow> jobj" where
  "build_question tostring has_parent html_question =
     snd (search_tree tostring has_parent html_question (JObj [] (Some [])))"

fun question_loop ::
  "(node \<Rightarrow> string) \<Rightarrow> (string \<Rightarrow> string) \<Rightarrow> bool \<Rightarrow> node list
     \<Rightarrow> jobj list \<times> string list \<Rightarrow> error + jobj list \<times> string list" where
  "question_loop tostring classify has_parent [] acc = Inr acc"
| "question_loop tostring classify has_parent (html_question # rest) (json_questions, questions_language) =
     (let json_question = build_question tostring has_parent html_question in
      case has_at_least_Q_or_A json_question of
        Inl e \<Rightarrow> Inl e
      | Inr has_Q_or_A \<Rightarrow>
          if has_Q_or_A then
            (case predict_question_language classify json_question of
               Inl e \<Rightarrow> Inl e
             | Inr language \<Rightarrow>
                 question_loop tostring classify has_parent rest
                   (json_questions @ [json_question], questions_language @ [language]))
          else question_loop tostring classify has_parent rest (json_questions, questions_language))"

record page_record =
  Language :: string
  Fasttext_language :: string
  URI :: string
  UUID :: string
  WARC_ID :: string
  Questions :: "jobj list"

text \<open>
  The record written for a page, \<open>None\<close> when nothing is written. The parsed page, its
  declared language and its URI come from the input; the identifier that \<^verbatim>\<open>uuid.uuid4()\<close>
  draws and the name of the archive are parameters.
\<close>

definition generate_record ::
  "(node \<Rightarrow> string) \<Rightarrow> (string \<Rightarrow> string) \<Rightarrow> string \<Rightarrow> string \<Rightarrow> string \<Rightarrow> string \<Rightarrow> node
     \<Rightarrow> error + page_record option" where
  "generate_record tostring classify question_uuid warc_id language uri html_root =
     (case question_loop tostring classify
             (\<not> itemtype_contains html_root ''//schema.org/Question'')
             (get_all_questions html_root) ([], []) of
        Inl e \<Rightarrow> Inl e
      | Inr (json_questions, questions_language) \<Rightarrow>
          if length json_questions > 0 then
            Inr (Some \<lparr> Language = language,
                        Fasttext_language = predict_majority_language questions_language,
                        URI = uri, UUID = question_uuid, WARC_ID = warc_id,
                        Questions = json_questions \<rparr>)
          else Inr None)"

section \<open>Notions for the statements\<close>

text \<open>The tree on which a collector looks for the dates and counts: after its cleanups.\<close>

definition question_tree :: "(node \<Rightarrow> string) \<Rightarrow> node \<Rightarrow> node" where
  "question_tree tostring node =
     fst (markup_field tostring ''text'' ''text_markup''
            (markup_field tostring ''name'' ''name_markup'' (node, [])))"

definition answer_tree :: "(node \<Rightarrow> string) \<Rightarrow> node \<Rightarrow> node" where
  "answer_tree tostring node = fst (markup_field tostring ''text'' ''text_markup'' (node, []))"

text \<open>
  The values under \<^verbatim>\<open>text_markup\<close> and \<^verbatim>\<open>name_markup\<close> are strings, in a context and in
  the records under its \<^verbatim>\<open>Answers\<close>.
\<close>

fun markup_strings :: "jobj \<Rightarrow> bool" where
  "markup_strings (JObj es as) =
     (map_of es ''text_markup'' \<noteq> Some None \<and> map_of es ''name_markup'' \<noteq> Some None
      \<and> (case as of None \<Rightarrow> True | Some l \<Rightarrow> list_all markup_strings l))"

text \<open>
  The \<^verbatim>\<open>status\<close> of an Answer record, when the record has one, is the value of
  \<^verbatim>\<open>node.get("itemprop")\<close> (\<open>None\<close> without the attribute) of one of the given nodes whose
  \<^verbatim>\<open>itemtype\<close> contains the Answer type.
\<close>

definition status_from :: "node list \<Rightarrow> jobj \<Rightarrow> bool" where
  "status_from ms a =
     (case map_of (entries a) ''status'' of
        None \<Rightarrow> True
      | Some v \<Rightarrow>
          list_ex (\<lambda>m. itemtype_contains m ''//schema.org/Answer'' \<and> get m ''itemprop'' = v) ms)"

section \<open>Properties of the itemprop locator\<close>

lemma str_contains_sublist: "str_contains p s = sublist p s"
  by (induction s) (auto simp: sublist_Cons_right)

lemma find_app:
  "List.find P (xs @ ys) = (case List.find P xs of Some x \<Rightarrow> Some x | None \<Rightarrow> List.find P ys)"
  by (induction xs) auto

lemma find_itemprop_find:
  "find_itemprop n p = List.find (\<lambda>m. itemprop_matches m p) (preorder n)"
  "find_itemprop_children cs p =
     List.find (\<lambda>m. itemprop_matches m p) (concat (map preorder cs))"
proof (induction n p and cs p rule: find_itemprop_find_itemprop_children.induct)
  case (1 tg ats tx cs ta p)
  then show ?case by simp
next
  case (2 p)
  then show ?case by simp
next
  case (3 child rest p)
  then show ?case by (simp add: find_app split: option.splits)
qed

text \<open>
  C9. \<open>find_itemprop\<close> is a pre-order depth-first search: its result is the first node, in
  document order (the node itself before its children), whose \<^verbatim>\<open>itemprop\<close> attribute
  contains the property name as a substring, and it is absent exactly when the subtree has no
  such node. It returns that single node and nothing after it.
\<close>

theorem find_itemprop_first_in_document_order:
  "find_itemprop n prop = List.find (\<lambda>m. itemprop_matches m prop) (preorder n)
   \<and> itemprop_matches m prop = (\<exists>v. get m ''itemprop'' = Some v \<and> sublist prop v)
   \<and> (find_itemprop n prop = None) = (filter (\<lambda>m. itemprop_matches m prop) (preorder n) = [])"
proof -
  have a: "find_itemprop n prop = List.find (\<lambda>m. itemprop_matches m prop) (preorder n)"
    by (rule find_itemprop_find)
  have b: "itemprop_matches m prop = (\<exists>v. get m ''itemprop'' = Some v \<and> sublist prop v)"
    by (simp add: itemprop_matches_def str_contains_sublist split: option.splits)
  have c: "(find_itemprop n prop = None)
           = (filter (\<lambda>m. itemprop_matches m prop) (preorder n) = [])"
    unfolding a find_None_iff by (auto simp: filter_empty_conv)
  from a b c show ?thesis by blast
qed

section \<open>Properties of the language voter\<close>

lemma first_occ_set [simp]: "set (first_occ xs) = set xs"
  by (induction xs) auto

lemma first_occ_distinct [simp]: "distinct (first_occ xs)"
  by (induction xs) (auto simp: distinct_removeAll)

lemma first_occ_append:
  "first_occ (xs @ ys) = first_occ xs @ filter (\<lambda>y. y \<notin> set xs) (first_occ ys)"
proof (induction xs)
  case Nil
  then show ?case by simp
next
  case (Cons x xs)
  have "removeAll x (filter (\<lambda>y. y \<notin> set xs) (first_occ ys))
        = filter (\<lambda>y. y \<notin> set (x # xs)) (first_occ ys)"
    unfolding removeAll_filter_not_eq filter_filter by (rule filter_cong) auto
  with Cons show ?case by simp
qed

lemma update_map_in:
  "distinct ks \<Longrightarrow> k \<in> set ks \<Longrightarrow>
   AList.update k v (map (\<lambda>x. (x, g x)) ks) = map (\<lambda>x. (x, (g(k := v)) x)) ks"
  by (induction ks) auto

lemma update_map_notin:
  "k \<notin> set ks \<Longrightarrow>
   AList.update k v (map (\<lambda>x. (x, g x)) ks) = map (\<lambda>x. (x, g x)) ks @ [(k, v)]"
  by (induction ks) auto

lemma map_of_map_key:
  "map_of (map (\<lambda>x. (x, g x)) ks) k = (if k \<in> set ks then Some (g k) else None)"
  by (induction ks) auto

lemma tally_append: "tally f (xs @ ys) = tally (tally f xs) ys"
  by (induction xs arbitrary: f) auto

lemma tally_first_occ:
  "tally [] ls = map (\<lambda>k. (k, count_list ls k)) (first_occ ls)"
proof (induction ls rule: rev_induct)
  case Nil
  then show ?case by simp
next
  case (snoc l ls)
  show ?case
  proof (cases "l \<in> set ls")
    case True
    then show ?thesis
      using snoc
      by (simp add: tally_append first_occ_append map_of_map_key update_map_in)
  next
    case False
    then show ?thesis
      using snoc
      by (auto simp add: tally_append first_occ_append map_of_map_key update_map_notin)
  qed
qed

lemma pick_char:
  "pick (a, m) ps = (r, c) \<Longrightarrow>
     ((r, c) = (a, m) \<and> (\<forall>(k, c') \<in> set ps. c' \<le> m))
   \<or> (\<exists>pre post. ps = pre @ (r, c) # post \<and> m < c
        \<and> (\<forall>(k, c') \<in> set pre. c' < c) \<and> (\<forall>(k, c') \<in> set post. c' \<le> c))"
proof (induction ps arbitrary: a m)
  case Nil
  then show ?case by simp
next
  case (Cons x ps)
  obtain k v where x: "x = (k, v)" by (cases x)
  show ?case
  proof (cases "v > m")
    case True
    with Cons.prems x have "pick (k, v) ps = (r, c)" by simp
    from Cons.IH[OF this] show ?thesis
    proof
      assume h: "(r, c) = (k, v) \<and> (\<forall>(k, c') \<in> set ps. c' \<le> v)"
      then have "x # ps = [] @ (r, c) # ps \<and> m < c \<and> (\<forall>(k, c') \<in> set []. c' < c)
           \<and> (\<forall>(k, c') \<in> set ps. c' \<le> c)"
        using True x by auto
      then show ?thesis by blast
    next
      assume "\<exists>pre post. ps = pre @ (r, c) # post \<and> v < c
        \<and> (\<forall>(k, c') \<in> set pre. c' < c) \<and> (\<forall>(k, c') \<in> set post. c' \<le> c)"
      then obtain pre post where h: "ps = pre @ (r, c) # post" "v < c"
        "\<forall>(k, c') \<in> set pre. c' < c" "\<forall>(k, c') \<in> set post. c' \<le> c" by blast
      then have "x # ps = (x # pre) @ (r, c) # post \<and> m < c
           \<and> (\<forall>(k, c') \<in> set (x # pre). c' < c) \<and> (\<forall>(k, c') \<in> set post. c' \<le> c)"
        using True x by auto
      then show ?thesis by blast
    qed
  next
    case False
    with Cons.prems x have "pick (a, m) ps = (r, c)" by simp
    from Cons.IH[OF this] show ?thesis
    proof
      assume "(r, c) = (a, m) \<and> (\<forall>(k, c') \<in> set ps. c' \<le> m)"
      then show ?thesis using False x by auto
    next
      assume "\<exists>pre post. ps = pre @ (r, c) # post \<and> m < c
        \<and> (\<forall>(k, c') \<in> set pre. c' < c) \<and> (\<forall>(k, c') \<in> set post. c' \<le> c)"
      then obtain pre post where h: "ps = pre @ (r, c) # post" "m < c"
        "\<forall>(k, c') \<in> set pre. c' < c" "\<forall>(k, c') \<in> set post. c' \<le> c" by blast
      then have "x # ps = (x # pre) @ (r, c) # post \<and> m < c
           \<and> (\<forall>(k, c') \<in> set (x # pre). c' < c) \<and> (\<forall>(k, c') \<in> set post. c' \<le> c)"
        using False x by auto
      then show ?thesis by blast
    qed
  qed
qed

lemma split_at_first_unique:
  "r \<notin> set xs \<Longrightarrow> r \<notin> set xs' \<Longrightarrow> xs @ r # ys = xs' @ r # ys' \<Longrightarrow> xs = xs'"
proof (induction xs arbitrary: xs')
  case Nil
  then show ?case by (cases xs') auto
next
  case (Cons a xs)
  then show ?case by (cases xs') auto
qed

lemma majority_decomp:
  assumes ne: "ls \<noteq> []" and r: "r = predict_majority_language ls"
  shows "\<exists>pre post. ls = pre @ r # post \<and> r \<notin> set pre
           \<and> (\<forall>l \<in> set pre. count_list ls l < count_list ls r)
           \<and> (\<forall>l. count_list ls l \<le> count_list ls r)"
proof -
  let ?F = "map (\<lambda>k. (k, count_list ls k)) (first_occ ls)"
  obtain r' c where p: "pick (''-'', 0) ?F = (r', c)" by (cases "pick (''-'', 0) ?F")
  then have rr: "r' = r" using r by (simp add: predict_majority_language_def tally_first_occ)
  from ne obtain x where x: "x \<in> set ls" by (cases ls) auto
  then have xc: "0 < count_list ls x" using count_list_0_iff[of ls x] by simp
  have "(x, count_list ls x) \<in> set ?F" using x by simp
  then have nall: "\<not> (\<forall>(k, c') \<in> set ?F. c' \<le> 0)"
    using xc by (metis (mono_tags, lifting) case_prodD not_less)
  from pick_char[OF p] nall
  have "\<exists>pre post. ?F = pre @ (r', c) # post \<and> 0 < c
        \<and> (\<forall>(k, c') \<in> set pre. c' < c) \<and> (\<forall>(k, c') \<in> set post. c' \<le> c)"
    by (elim disjE) simp_all
  then obtain pre' post' where d: "?F = pre' @ (r', c) # post'"
    and lt: "\<forall>(k, c') \<in> set pre'. c' < c" and le: "\<forall>(k, c') \<in> set post'. c' \<le> c"
    by (elim exE conjE)
  from d obtain ks1 ks2 where ks: "first_occ ls = ks1 @ r' # ks2"
    and pre': "pre' = map (\<lambda>k. (k, count_list ls k)) ks1"
    and c: "c = count_list ls r'"
    and post': "post' = map (\<lambda>k. (k, count_list ls k)) ks2"
    by (auto simp: map_eq_append_conv map_eq_Cons_conv)
  have lt1: "\<forall>k \<in> set ks1. count_list ls k < count_list ls r"
    using lt pre' c rr by auto
  have le2: "\<forall>k \<in> set ks2. count_list ls k \<le> count_list ls r"
    using le post' c rr by auto
  have setls: "set ls = set ks1 \<union> {r} \<union> set ks2"
    using ks rr first_occ_set[of ls] by simp
  have all: "\<forall>l. count_list ls l \<le> count_list ls r"
  proof
    fix l show "count_list ls l \<le> count_list ls r"
    proof (cases "l \<in> set ls")
      case True
      then show ?thesis using setls lt1 le2 by (auto simp: less_imp_le)
    next
      case False
      then show ?thesis by (simp add: count_list_0_iff)
    qed
  qed
  have "r \<in> set ls" using setls by simp
  then obtain pre post where sp: "ls = pre @ r # post" and np: "r \<notin> set pre"
    by (auto dest: split_list_first)
  have fo: "first_occ ls = first_occ pre @ r # filter (\<lambda>y. y \<notin> set pre) (removeAll r (first_occ post))"
    using np by (simp add: sp first_occ_append)
  have n1: "r \<notin> set ks1" using ks rr first_occ_distinct[of ls] by auto
  have n2: "r \<notin> set (first_occ pre)" using np by simp
  have "ks1 @ r # ks2 = first_occ pre @ r # filter (\<lambda>y. y \<notin> set pre) (removeAll r (first_occ post))"
    using ks rr fo by simp
  then have "ks1 = first_occ pre"
    using split_at_first_unique[OF n1 n2] by simp
  then have sk: "set pre = set ks1" by simp
  have "ls = pre @ r # post \<and> r \<notin> set pre
           \<and> (\<forall>l \<in> set pre. count_list ls l < count_list ls r)
           \<and> (\<forall>l. count_list ls l \<le> count_list ls r)"
    using lt1 sp np all sk by simp
  then show ?thesis by (intro exI)
qed

text \<open>
  C8. On a non-empty list \<open>predict_majority_language\<close> returns a label of the list whose
  number of occurrences no other label exceeds, and among the labels with that number the one
  that occurs first: every label seen before its first occurrence has strictly fewer
  occurrences. On \<open>[en, en, fr]\<close> it returns \<open>en\<close>, and on the tie \<open>[en, fr]\<close> it returns
  \<open>en\<close>, the label tallied first.
\<close>

theorem predict_majority_language_first_most_frequent:
  "(languages \<noteq> [] \<longrightarrow>
      (\<exists>pre post. languages = pre @ predict_majority_language languages # post
         \<and> predict_majority_language languages \<notin> set pre
         \<and> (\<forall>l \<in> set pre. count_list languages l
                             < count_list languages (predict_majority_language languages))
         \<and> (\<forall>l. count_list languages l
                 \<le> count_list languages (predict_majority_language languages))))
   \<and> predict_majority_language [''en'', ''en'', ''fr''] = ''en''
   \<and> predict_majority_language [''en'', ''fr''] = ''en''"
proof -
  have a: "predict_majority_language [''en'', ''en'', ''fr''] = ''en''"
    by (simp add: predict_majority_language_def)
  have b: "predict_majority_language [''en'', ''fr''] = ''en''"
    by (simp add: predict_majority_language_def)
  show ?thesis
    apply (intro conjI impI)
      apply (erule majority_decomp[OF _ refl])
     apply (rule a)
    apply (rule b)
    done
qed

theorem predict_majority_language_witness:
  "predict_majority_language [''fr'', ''en'', ''en'', ''fr''] = ''fr''
   \<and> (\<exists>pre post. [''fr'', ''en'', ''en'', ''fr''] = pre @ ''fr'' # post \<and> ''fr'' \<notin> set pre
        \<and> (\<forall>l. count_list [''fr'', ''en'', ''en'', ''fr''] l
                \<le> count_list [''fr'', ''en'', ''en'', ''fr''] ''fr''))"
proof -
  have e: "predict_majority_language [''fr'', ''en'', ''en'', ''fr''] = ''fr''"
    by (simp add: predict_majority_language_def)
  have ne: "[''fr'', ''en'', ''en'', ''fr''] \<noteq> []" by simp
  from predict_majority_language_first_most_frequent[of "[''fr'', ''en'', ''en'', ''fr'']"] ne
  obtain pre post where
    "[''fr'', ''en'', ''en'', ''fr''] = pre @ ''fr'' # post \<and> ''fr'' \<notin> set pre
        \<and> (\<forall>l. count_list [''fr'', ''en'', ''en'', ''fr''] l
                \<le> count_list [''fr'', ''en'', ''en'', ''fr''] ''fr'')"
    unfolding e by (elim conjE impE exE) (assumption, intro that conjI, assumption+)
  then have "\<exists>pre post. [''fr'', ''en'', ''en'', ''fr''] = pre @ ''fr'' # post \<and> ''fr'' \<notin> set pre
        \<and> (\<forall>l. count_list [''fr'', ''en'', ''en'', ''fr''] l
                \<le> count_list [''fr'', ''en'', ''en'', ''fr''] ''fr'')"
    by (intro exI)
  with e show ?thesis by (intro conjI)
qed

section \<open>Properties of the tag sanitizer\<close>

lemma has_key_Node [simp]: "has_key (Node tg ats tx cs ta) k = (map_of ats k \<noteq> None)"
  by (simp add: has_key_def get_def)

lemma rm_keeps:
  "keeps vt n \<Longrightarrow> remove_all_but_text_nodes vt n =
     [Node (tag n) (attrs n) (node_text n)
        (concat (map (remove_all_but_text_nodes vt) (children n))) (node_tail n)]"
  by (cases n) (auto simp add: keeps_def Let_def)

lemma rm_splices:
  "\<not> keeps vt n \<Longrightarrow> remove_all_but_text_nodes vt n =
     rev (concat (map (remove_all_but_text_nodes vt) (children n)))"
  by (cases n) (auto simp add: keeps_def Let_def)

lemma rm_clean: "list_all (clean vt) (remove_all_but_text_nodes vt n)"
proof (induction vt n rule: remove_all_but_text_nodes.induct)
  case (1 vt tg ats tx cs ta)
  have "list_all (clean vt) (concat (map (remove_all_but_text_nodes vt) cs))"
    using 1 by (auto simp: list_all_iff)
  then show ?case by (simp add: Let_def)
qed

lemma rm_forest_clean:
  "list_all (clean vt) (concat (map (remove_all_but_text_nodes vt) ms))"
  by (induction ms) (simp_all add: rm_clean)

lemma clean_fixed: "clean vt n \<Longrightarrow> remove_all_but_text_nodes vt n = [n]"
proof (induction vt n rule: remove_all_but_text_nodes.induct)
  case (1 vt tg ats tx cs ta)
  have "\<forall>c \<in> set cs. remove_all_but_text_nodes vt c = [c]"
    using 1 by (auto simp: list_all_iff)
  then have "concat (map (remove_all_but_text_nodes vt) cs) = cs"
    by (induction cs) auto
  then show ?case using 1(2) by (auto simp add: Let_def)
qed

lemma clean_forest_fixed:
  "list_all (clean vt) ms \<Longrightarrow> concat (map (remove_all_but_text_nodes vt) ms) = ms"
  by (induction ms) (auto simp: clean_fixed)

lemma rm_idem:
  "concat (map (remove_all_but_text_nodes vt) (remove_all_but_text_nodes vt n))
     = remove_all_but_text_nodes vt n"
  by (rule clean_forest_fixed[OF rm_clean])

lemma sanitized_children_fixed:
  "concat (map (remove_all_but_text_nodes valid_tags) (children (sanitized n)))
     = children (sanitized n)"
  unfolding sanitized_def
  by (simp add: clean_forest_fixed rm_forest_clean)

lemma mset_concat_rev: "mset (concat (map f (rev xs))) = mset (concat (map f xs))"
  by (induction xs) auto

lemma kept_labels_forest:
  assumes "\<And>c. c \<in> set cs \<Longrightarrow>
      mset (map label (concat (map preorder (remove_all_but_text_nodes vt c))))
        = mset (map label (filter (keeps vt) (preorder c)))"
  shows "mset (map label (concat (map preorder (concat (map (remove_all_but_text_nodes vt) cs)))))
        = mset (map label (filter (keeps vt) (concat (map preorder cs))))"
  using assms by (induction cs) auto

lemma kept_labels:
  "mset (map label (concat (map preorder (remove_all_but_text_nodes vt n))))
     = mset (map label (filter (keeps vt) (preorder n)))"
proof (induction vt n rule: remove_all_but_text_nodes.induct)
  case (1 vt tg ats tx cs ta)
  let ?cs' = "concat (map (remove_all_but_text_nodes vt) cs)"
  have f: "mset (map label (concat (map preorder ?cs')))
        = mset (map label (filter (keeps vt) (concat (map preorder cs))))"
    by (rule kept_labels_forest) (use 1 in simp)
  show ?case
  proof (cases "keeps vt (Node tg ats tx cs ta)")
    case True
    have "remove_all_but_text_nodes vt (Node tg ats tx cs ta) = [Node tg ats tx ?cs' ta]"
      using rm_keeps[OF True] by simp
    moreover have "label (Node tg ats tx ?cs' ta) = label (Node tg ats tx cs ta)"
      by (simp add: label_def)
    ultimately show ?thesis using f True by simp
  next
    case False
    have "mset (map label (concat (map preorder (rev ?cs'))))
            = mset (map label (concat (map preorder ?cs')))"
      using mset_concat_rev[of "\<lambda>m. map label (preorder m)" ?cs']
      by (simp add: map_concat comp_def)
    moreover have "remove_all_but_text_nodes vt (Node tg ats tx cs ta) = rev ?cs'"
      using rm_splices[OF False] by simp
    ultimately show ?thesis using False f by simp
  qed
qed

text \<open>
  C3. The sanitizer splices a node by moving its child elements behind it and removing it; the
  text and the tail of a spliced node go with it. On the located node \<open>div\<close> below, \<open>center\<close>
  is spliced and its child \<open>p\<close> is re-inserted, but \<open>font\<close> inside \<open>p\<close> is spliced as well, and
  its text \<open>X\<close> and its tail \<open>Y\<close>, text that the child subtree of \<open>center\<close> contained, are no
  longer in the tree.
\<close>

theorem sanitizer_drops_text_in_child_subtree:
  "text_cleanup True
     (Node ''div'' [(''itemprop'', ''text'')] None
        [Node ''center'' [] None
           [Node ''p'' [] (Some ''Hi'') [Node ''font'' [] (Some ''X'') [] (Some ''Y'')] None]
           None] None)
     = Inr (Node ''div'' [(''itemprop'', ''text'')] None
              [Node ''p'' [] (Some ''Hi'') [] None] None)
   \<and> Some ''X'' \<in> set (texts (Node ''p'' [] (Some ''Hi'')
                              [Node ''font'' [] (Some ''X'') [] (Some ''Y'')] None))
   \<and> Some ''Y'' \<in> set (texts (Node ''p'' [] (Some ''Hi'')
                              [Node ''font'' [] (Some ''X'') [] (Some ''Y'')] None))
   \<and> Some ''X'' \<notin> set (texts (Node ''div'' [(''itemprop'', ''text'')] None
                              [Node ''p'' [] (Some ''Hi'') [] None] None))
   \<and> Some ''Y'' \<notin> set (texts (Node ''div'' [(''itemprop'', ''text'')] None
                              [Node ''p'' [] (Some ''Hi'') [] None] None))"
  by (simp add: text_cleanup_def sanitized_def valid_tags_def)

text \<open>
  C4. A second pass of the sanitizer changes nothing: the nodes a pass leaves in the place of
  a node are left as they are by another pass, and the node \<open>text_cleanup\<close> returns is
  returned unchanged by \<open>text_cleanup\<close> again.
\<close>

theorem sanitizer_idempotent:
  "concat (map (remove_all_but_text_nodes vt) (remove_all_but_text_nodes vt n))
     = remove_all_but_text_nodes vt n
   \<and> (text_cleanup has_parent n = Inr n' \<longrightarrow> text_cleanup has_parent' n' = Inr n')"
proof -
  have b: "text_cleanup has_parent' n' = Inr n'" if h: "text_cleanup has_parent n = Inr n'"
  proof (cases "tag n \<notin> set valid_tags \<and> \<not> has_key n ''itemprop''")
    case True
    with h have n': "n' = Node (tag n) (attrs n) (node_text n) [] (node_tail n)"
      by (auto simp: text_cleanup_def split: if_splits)
    show ?thesis using True unfolding n'
      by (simp add: text_cleanup_def sanitized_def)
  next
    case False
    with h have n': "n' = sanitized n" by (auto simp: text_cleanup_def)
    have k: "\<not> (tag n' \<notin> set valid_tags \<and> \<not> has_key n' ''itemprop'')"
      using False unfolding n' sanitized_def by (simp add: has_key_def get_def)
    have "sanitized n' = n'"
      unfolding n' using sanitized_children_fixed[of n] by (simp add: sanitized_def)
    with k show ?thesis by (auto simp add: text_cleanup_def)
  qed
  with rm_idem[of vt n] show ?thesis by blast
qed

theorem sanitizer_idempotent_witness:
  "text_cleanup True
     (Node ''div'' [(''itemprop'', ''text'')] None
        [Node ''center'' [] None
           [Node ''p'' [] (Some ''Hi'') [] None, Node ''b'' [] None [] (Some ''!'')] None] None)
     = Inr (Node ''div'' [(''itemprop'', ''text'')] None
              [Node ''b'' [] None [] (Some ''!''), Node ''p'' [] (Some ''Hi'') [] None] None)
   \<and> text_cleanup True
       (Node ''div'' [(''itemprop'', ''text'')] None
              [Node ''b'' [] None [] (Some ''!''), Node ''p'' [] (Some ''Hi'') [] None] None)
     = Inr (Node ''div'' [(''itemprop'', ''text'')] None
              [Node ''b'' [] None [] (Some ''!''), Node ''p'' [] (Some ''Hi'') [] None] None)"
proof -
  have e: "text_cleanup True
     (Node ''div'' [(''itemprop'', ''text'')] None
        [Node ''center'' [] None
           [Node ''p'' [] (Some ''Hi'') [] None, Node ''b'' [] None [] (Some ''!'')] None] None)
     = Inr (Node ''div'' [(''itemprop'', ''text'')] None
              [Node ''b'' [] None [] (Some ''!''), Node ''p'' [] (Some ''Hi'') [] None] None)"
    by (simp add: text_cleanup_def sanitized_def valid_tags_def)
  from sanitizer_idempotent[where has_parent = True and has_parent' = True] e
  show ?thesis by blast
qed

section \<open>Properties of the collectors\<close>

lemma find_itemprop_matches:
  "find_itemprop n p = Some m \<Longrightarrow> itemprop_matches m p"
  "find_itemprop_children cs p = Some m \<Longrightarrow> itemprop_matches m p"
  by (induction n p and cs p rule: find_itemprop_find_itemprop_children.induct)
     (auto split: if_splits option.splits)

lemma text_cleanup_located:
  "find_itemprop n p = Some m \<Longrightarrow> text_cleanup has_parent m = Inr (sanitized m)"
proof -
  assume "find_itemprop n p = Some m"
  then have "itemprop_matches m p" by (rule find_itemprop_matches)
  then have "has_key m ''itemprop''"
    by (auto simp: itemprop_matches_def has_key_def split: option.splits)
  then show ?thesis by (simp add: text_cleanup_def)
qed

lemma attrs_sanitized [simp]: "attrs (sanitized n) = attrs n"
  by (simp add: sanitized_def)

lemma attrs_update_itemprop [simp]: "attrs (update_itemprop sanitized n p) = attrs n"
  by (cases n) simp

lemma fst_datetime_field [simp]: "fst (datetime_field p k s) = fst s"
  by (simp add: datetime_field_def split: option.splits)

lemma fst_count_field [simp]: "fst (count_field p k s) = fst s"
  by (simp add: count_field_def split: option.splits)

lemma fst_status_field [simp]: "fst (status_field s) = fst s"
  by (simp add: status_field_def)

lemma get_fst_markup_field [simp]: "get (fst (markup_field ts p k s)) a = get (fst s) a"
  by (simp add: markup_field_def get_def split: option.splits)

lemma map_of_datetime_field:
  "map_of (snd (datetime_field p k s)) k' =
     (if k' = k then (case find_itemprop (fst s) p of
                        None \<Rightarrow> map_of (snd s) k'
                      | Some m \<Rightarrow> Some (get m ''datetime''))
      else map_of (snd s) k')"
  by (simp add: datetime_field_def update_conv' split: option.splits)

lemma map_of_count_field:
  "map_of (snd (count_field p k s)) k' =
     (if k' = k then (case find_itemprop (fst s) p of
                        None \<Rightarrow> map_of (snd s) k'
                      | Some m \<Rightarrow> Some (content_or_text m))
      else map_of (snd s) k')"
  by (simp add: count_field_def update_conv' split: option.splits)

lemma map_of_status_field:
  "map_of (snd (status_field s)) k' =
     (if k' = ''status'' then Some (get (fst s) ''itemprop'') else map_of (snd s) k')"
  by (simp add: status_field_def update_conv')

lemma map_of_markup_field:
  "map_of (snd (markup_field ts p k s)) k' =
     (if k' = k then (case find_itemprop (fst s) p of
                        None \<Rightarrow> map_of (snd s) k'
                      | Some m \<Rightarrow> Some (Some (turn_into_string ts (sanitized m))))
      else map_of (snd s) k')"
  by (simp add: markup_field_def update_conv' split: option.splits)

lemmas collector_field_simps =
  map_of_datetime_field map_of_count_field map_of_status_field map_of_markup_field

lemma question_dates_counts:
  "map_of (snd (collect_question ts n)) ''date_created''
     = map_option (\<lambda>m. get m ''datetime'') (find_itemprop (question_tree ts n) ''dateCreated'')"
  "map_of (snd (collect_question ts n)) ''date_modified''
     = map_option (\<lambda>m. get m ''datetime'') (find_itemprop (question_tree ts n) ''dateModified'')"
  "map_of (snd (collect_question ts n)) ''date_published''
     = map_option (\<lambda>m. get m ''datetime'') (find_itemprop (question_tree ts n) ''datePublished'')"
  "map_of (snd (collect_question ts n)) ''upvote_count''
     = map_option content_or_text (find_itemprop (question_tree ts n) ''upvoteCount'')"
  "map_of (snd (collect_question ts n)) ''downvote_count''
     = map_option content_or_text (find_itemprop (question_tree ts n) ''downvoteCount'')"
  "map_of (snd (collect_question ts n)) ''comment_count''
     = map_option content_or_text (find_itemprop (question_tree ts n) ''commentCount'')"
  "map_of (snd (collect_question ts n)) ''answer_count''
     = map_option content_or_text (find_itemprop (question_tree ts n) ''answerCount'')"
  by (simp_all add: collect_question_def question_tree_def collector_field_simps split: option.splits)

lemma answer_dates_counts:
  "map_of (snd (collect_answer ts n)) ''date_created''
     = map_option (\<lambda>m. get m ''datetime'') (find_itemprop (answer_tree ts n) ''dateCreated'')"
  "map_of (snd (collect_answer ts n)) ''date_modified''
     = map_option (\<lambda>m. get m ''datetime'') (find_itemprop (answer_tree ts n) ''dateModified'')"
  "map_of (snd (collect_answer ts n)) ''date_published''
     = map_option (\<lambda>m. get m ''datetime'') (find_itemprop (answer_tree ts n) ''datePublished'')"
  "map_of (snd (collect_answer ts n)) ''upvote_count''
     = map_option content_or_text (find_itemprop (answer_tree ts n) ''upvoteCount'')"
  "map_of (snd (collect_answer ts n)) ''downvote_count''
     = map_option content_or_text (find_itemprop (answer_tree ts n) ''downvoteCount'')"
  "map_of (snd (collect_answer ts n)) ''comment_count''
     = map_option content_or_text (find_itemprop (answer_tree ts n) ''commentCount'')"
  by (simp_all add: collect_answer_def answer_tree_def collector_field_simps split: option.splits)

lemma answer_status:
  "map_of (snd (collect_answer ts n)) ''status'' = Some (get n ''itemprop'')"
  by (simp add: collect_answer_def collector_field_simps)

lemma answer_text_markup:
  "map_of (snd (collect_answer ts n)) ''text_markup'' \<noteq> Some None"
  by (simp add: collect_answer_def collector_field_simps split: option.splits)

text \<open>
  C5. The code returns absent whenever no \<^verbatim>\<open>name\<close> node is located, also when an \<^verbatim>\<open>author\<close>
  node is: on the node below the search for \<^verbatim>\<open>name\<close> fails, the search for \<^verbatim>\<open>author\<close> finds
  the child, and \<open>collect_person\<close> returns \<open>None\<close>.
\<close>

theorem collect_person_author_only_absent:
  "find_itemprop
     (Node ''span'' [(''itemtype'', ''https://schema.org/Person'')] None
        [Node ''b'' [(''itemprop'', ''author'')] (Some ''Ann'') [] None] None) ''name'' = None
   \<and> find_itemprop
     (Node ''span'' [(''itemtype'', ''https://schema.org/Person'')] None
        [Node ''b'' [(''itemprop'', ''author'')] (Some ''Ann'') [] None] None) ''author''
       = Some (Node ''b'' [(''itemprop'', ''author'')] (Some ''Ann'') [] None)
   \<and> collect_person
     (Node ''span'' [(''itemtype'', ''https://schema.org/Person'')] None
        [Node ''b'' [(''itemprop'', ''author'')] (Some ''Ann'') [] None] None) = None"
  by (simp add: collect_person_def itemprop_matches_def get_def)

text \<open>
  C6 (as amended). In a Question and in an Answer record, a count field (votes, comments,
  answers) holds the \<^verbatim>\<open>content\<close> attribute of the located node when that node is a
  \<^verbatim>\<open>meta\<close> tag and its direct text otherwise; a date field holds the \<^verbatim>\<open>datetime\<close> attribute
  of the located node, whatever its tag. A field is present exactly when its node is located.
\<close>

theorem metadata_fields_collected:
  "map_of (snd (collect_question ts n)) ''date_created''
     = map_option (\<lambda>m. get m ''datetime'') (find_itemprop (question_tree ts n) ''dateCreated'')
   \<and> map_of (snd (collect_question ts n)) ''date_modified''
     = map_option (\<lambda>m. get m ''datetime'') (find_itemprop (question_tree ts n) ''dateModified'')
   \<and> map_of (snd (collect_question ts n)) ''date_published''
     = map_option (\<lambda>m. get m ''datetime'') (find_itemprop (question_tree ts n) ''datePublished'')
   \<and> map_of (snd (collect_question ts n)) ''upvote_count''
     = map_option content_or_text (find_itemprop (question_tree ts n) ''upvoteCount'')
   \<and> map_of (snd (collect_question ts n)) ''downvote_count''
     = map_option content_or_text (find_itemprop (question_tree ts n) ''downvoteCount'')
   \<and> map_of (snd (collect_question ts n)) ''comment_count''
     = map_option content_or_text (find_itemprop (question_tree ts n) ''commentCount'')
   \<and> map_of (snd (collect_question ts n)) ''answer_count''
     = map_option content_or_text (find_itemprop (question_tree ts n) ''answerCount'')
   \<and> map_of (snd (collect_answer ts n)) ''date_created''
     = map_option (\<lambda>m. get m ''datetime'') (find_itemprop (answer_tree ts n) ''dateCreated'')
   \<and> map_of (snd (collect_answer ts n)) ''date_modified''
     = map_option (\<lambda>m. get m ''datetime'') (find_itemprop (answer_tree ts n) ''dateModified'')
   \<and> map_of (snd (collect_answer ts n)) ''date_published''
     = map_option (\<lambda>m. get m ''datetime'') (find_itemprop (answer_tree ts n) ''datePublished'')
   \<and> map_of (snd (collect_answer ts n)) ''upvote_count''
     = map_option content_or_text (find_itemprop (answer_tree ts n) ''upvoteCount'')
   \<and> map_of (snd (collect_answer ts n)) ''downvote_count''
     = map_option content_or_text (find_itemprop (answer_tree ts n) ''downvoteCount'')
   \<and> map_of (snd (collect_answer ts n)) ''comment_count''
     = map_option content_or_text (find_itemprop (answer_tree ts n) ''commentCount'')
   \<and> content_or_text m = (if tag m = ''meta'' then get m ''content'' else node_text m)"
  by (intro conjI question_dates_counts answer_dates_counts content_or_text_def)

text \<open>
  A date on a \<^verbatim>\<open>meta\<close> tag with a \<^verbatim>\<open>content\<close> attribute: the rule of the counts would give
  the content, the code stores the missing \<^verbatim>\<open>datetime\<close> attribute.
\<close>

theorem date_field_counterexample:
  "find_itemprop
     (Node ''div'' [(''itemtype'', ''https://schema.org/Question'')] None
        [Node ''meta'' [(''itemprop'', ''dateCreated''), (''content'', ''2020-01-01'')]
           None [] None] None) ''dateCreated''
     = Some (Node ''meta'' [(''itemprop'', ''dateCreated''), (''content'', ''2020-01-01'')]
               None [] None)
   \<and> content_or_text
       (Node ''meta'' [(''itemprop'', ''dateCreated''), (''content'', ''2020-01-01'')]
          None [] None) = Some ''2020-01-01''
   \<and> map_of (snd (collect_question (\<lambda>n. [])
       (Node ''div'' [(''itemtype'', ''https://schema.org/Question'')] None
          [Node ''meta'' [(''itemprop'', ''dateCreated''), (''content'', ''2020-01-01'')]
             None [] None] None))) ''date_created'' = Some None"
  by (simp add: question_dates_counts question_tree_def markup_field_def
        itemprop_matches_def get_def content_or_text_def)

section \<open>Properties of the tree walker\<close>

lemma map_of_fold_update:
  "map_of (fold (\<lambda>(k, v). AList.update k v) e d) = map_of d ++ map_of (rev e)"
proof (induction e arbitrary: d)
  case Nil
  then show ?case by simp
next
  case (Cons x e)
  obtain k v where x: "x = (k, v)" by (cases x)
  have "fold (\<lambda>(k, v). AList.update k v) (x # e) d
          = fold (\<lambda>(k, v). AList.update k v) e (AList.update k v d)"
    by (simp add: x)
  then have "map_of (fold (\<lambda>(k, v). AList.update k v) (x # e) d)
          = map_of (AList.update k v d) ++ map_of (rev e)"
    by (simp only: Cons)
  also have "\<dots> = (map_of d)(k \<mapsto> v) ++ map_of (rev e)"
    by (simp only: update_conv')
  also have "\<dots> = map_of d ++ map_of (rev (x # e))"
    unfolding x by (rule ext) (simp add: map_add_def split: option.splits)
  finally show ?case .
qed

lemma answers_dict_update [simp]: "answers (dict_update j e) = answers j"
  by (simp add: dict_update_def)

lemma entries_dict_update:
  "map_of (entries (dict_update j e)) = map_of (entries j) ++ map_of (rev e)"
  by (simp add: dict_update_def map_of_fold_update)

lemma answers_post_order [simp]:
  "answers (snd (search_tree_post_order ts hp n c)) = answers c"
  by (simp add: search_tree_post_order_def split: option.splits prod.splits)

lemma search_keeps_answers_key:
  "(answers (snd (search_tree ts hp n c)) = None) = (answers c = None)"
  "(answers (snd (search_children ts cs c)) = None) = (answers c = None)"
proof (induction ts hp n c and ts cs c rule: search_tree_search_children.induct)
  case (1 ts hp tg ats tx cs ta c)
  show ?case
  proof (cases "itemtype_contains (Node tg ats tx cs ta) ''//schema.org/Answer''")
    case True
    then show ?thesis by (simp split: option.splits prod.splits)
  next
    case False
    obtain cs' c' where sc: "search_children ts cs c = (cs', c')"
      by (cases "search_children ts cs c")
    have "(answers c' = None) = (answers c = None)" using 1(2)[OF False] sc by simp
    moreover have "answers (snd (search_tree_post_order ts hp (Node tg ats tx cs' ta) c')) = answers c'"
      by simp
    ultimately show ?thesis using False sc by simp
  qed
next
  case (2 ts c)
  then show ?case by simp
next
  case (3 ts child rest c)
  obtain r c' where st: "search_tree ts True child c = (r, c')"
    by (cases "search_tree ts True child c")
  obtain rs c'' where sc: "search_children ts rest c' = (rs, c'')"
    by (cases "search_children ts rest c'")
  have "(answers c' = None) = (answers c = None)" using 3(1) st by simp
  moreover have "(answers c'' = None) = (answers c' = None)"
    using 3(2)[OF st[symmetric]] sc by simp
  ultimately show ?case using st sc by simp
qed

lemma search_children_append:
  "search_children ts (xs @ ys) c =
     (case search_children ts xs c of
        (xs', c') \<Rightarrow> (case search_children ts ys c' of (ys', c'') \<Rightarrow> (xs' @ ys', c'')))"
  by (induction xs arbitrary: c) (auto split: prod.splits option.splits)

lemma search_tree_stacked_answer:
  "itemtype_contains n ''//schema.org/Answer'' \<Longrightarrow> answers c = None \<Longrightarrow>
   search_tree ts hp n c = (if hp then None else Some n, c)"
  by (cases n) (simp add: detach_def)

text \<open>
  C2. On a node whose \<^verbatim>\<open>itemtype\<close> contains the Answer type, with a context that has no
  \<^verbatim>\<open>Answers\<close> key, \<open>search_tree\<close> removes the node from its parent when it has one, descends
  into none of its children and returns the context as it was. The walk over a list of
  siblings that contains such a node leaves the same nodes and the same context as the walk
  over the list without it: nothing of the node reaches a context.
\<close>

theorem search_tree_prunes_stacked_answer:
  "itemtype_contains n ''//schema.org/Answer'' \<and> answers json_context = None \<longrightarrow>
     search_tree tostring has_parent n json_context
       = (if has_parent then None else Some n, json_context)
     \<and> search_children tostring (before @ n # after) json_context
       = search_children tostring (before @ after) json_context"
proof (intro impI, elim conjE)
  assume a: "itemtype_contains n ''//schema.org/Answer''" and c: "answers json_context = None"
  obtain xs' c' where b: "search_children tostring before json_context = (xs', c')"
    by (cases "search_children tostring before json_context")
  have "answers c' = None" using search_keeps_answers_key(2)[of tostring before json_context] b c
    by simp
  then have "search_tree tostring True n c' = (None, c')"
    using search_tree_stacked_answer[OF a] by simp
  then have "search_children tostring (before @ n # after) json_context
       = search_children tostring (before @ after) json_context"
    using b by (simp add: search_children_append split: prod.splits)
  with search_tree_stacked_answer[OF a c]
  show "search_tree tostring has_parent n json_context
       = (if has_parent then None else Some n, json_context)
     \<and> search_children tostring (before @ n # after) json_context
       = search_children tostring (before @ after) json_context" by simp
qed

theorem search_tree_prunes_stacked_answer_witness:
  "search_tree (\<lambda>n. []) True
     (Node ''div'' [(''itemtype'', ''https://schema.org/Answer'')] None
        [Node ''p'' [(''itemprop'', ''text'')] (Some ''B'') [] None] None)
     (JObj [(''text_markup'', Some ''A'')] None)
     = (None, JObj [(''text_markup'', Some ''A'')] None)
   \<and> search_children (\<lambda>n. [])
       [Node ''i'' [] None [] None,
        Node ''div'' [(''itemtype'', ''https://schema.org/Answer'')] None
          [Node ''p'' [(''itemprop'', ''text'')] (Some ''B'') [] None] None,
        Node ''b'' [] None [] None]
       (JObj [(''text_markup'', Some ''A'')] None)
     = search_children (\<lambda>n. []) [Node ''i'' [] None [] None, Node ''b'' [] None [] None]
         (JObj [(''text_markup'', Some ''A'')] None)"
proof -
  have a: "itemtype_contains
     (Node ''div'' [(''itemtype'', ''https://schema.org/Answer'')] None
        [Node ''p'' [(''itemprop'', ''text'')] (Some ''B'') [] None] None) ''//schema.org/Answer''"
    by (simp add: itemtype_contains_def get_def)
  have c: "answers (JObj [(''text_markup'', Some ''A'')] None) = None" by simp
  note t = search_tree_prunes_stacked_answer[where
      json_context = "JObj [(''text_markup'', Some ''A'')] None" and tostring = "\<lambda>n. []"
      and has_parent = True and before = "[Node ''i'' [] None [] None]"
      and after = "[Node ''b'' [] None [] None]"]
  from mp[OF t conjI[OF a c]] show ?thesis by (simp only: if_True append.simps)
qed

section \<open>Properties of the records\<close>

lemma map_of_rev_distinct: "distinct (map fst xs) \<Longrightarrow> map_of (rev xs) = map_of xs"
proof (induction xs)
  case Nil
  then show ?case by simp
next
  case (Cons x xs)
  obtain k v where x: "x = (k, v)" by (cases x)
  have "map_of xs k = None" using Cons.prems x by (simp add: map_of_eq_None_iff)
  then have "[k \<mapsto> v] ++ map_of xs = (map_of xs)(k \<mapsto> v)"
    by (intro ext) (simp add: map_add_def split: option.splits)
  then show ?case using Cons x by simp
qed

lemma distinct_markup_field:
  "distinct (map fst (snd s)) \<Longrightarrow> distinct (map fst (snd (markup_field ts p k s)))"
  by (simp add: markup_field_def distinct_update split: option.splits)

lemma distinct_datetime_field:
  "distinct (map fst (snd s)) \<Longrightarrow> distinct (map fst (snd (datetime_field p k s)))"
  by (simp add: datetime_field_def distinct_update split: option.splits)

lemma distinct_count_field:
  "distinct (map fst (snd s)) \<Longrightarrow> distinct (map fst (snd (count_field p k s)))"
  by (simp add: count_field_def distinct_update split: option.splits)

lemma distinct_status_field:
  "distinct (map fst (snd s)) \<Longrightarrow> distinct (map fst (snd (status_field s)))"
  by (simp add: status_field_def distinct_update)

lemmas distinct_steps =
  distinct_markup_field distinct_datetime_field distinct_count_field distinct_status_field

lemma distinct_collect_question: "distinct (map fst (snd (collect_question ts n)))"
  unfolding collect_question_def Let_def by (intro distinct_steps) simp

lemma distinct_collect_answer: "distinct (map fst (snd (collect_answer ts n)))"
  unfolding collect_answer_def Let_def by (intro distinct_steps) simp

lemma question_markup:
  "map_of (snd (collect_question ts n)) ''text_markup'' \<noteq> Some None"
  "map_of (snd (collect_question ts n)) ''name_markup'' \<noteq> Some None"
  by (simp_all add: collect_question_def collector_field_simps split: option.splits)

lemma answer_name_markup:
  "map_of (snd (collect_answer ts n)) ''name_markup'' = None"
  by (simp add: collect_answer_def collector_field_simps split: option.splits)

lemma entries_update_question:
  "map_of (entries (dict_update j (snd (collect_question ts n))))
     = map_of (entries j) ++ map_of (snd (collect_question ts n))"
  by (simp add: entries_dict_update map_of_rev_distinct distinct_collect_question)

lemma entries_update_answer:
  "map_of (entries (dict_update j (snd (collect_answer ts n))))
     = map_of (entries j) ++ map_of (snd (collect_answer ts n))"
  by (simp add: entries_dict_update map_of_rev_distinct distinct_collect_answer)

lemma markup_strings_iff:
  "markup_strings j =
     (map_of (entries j) ''text_markup'' \<noteq> Some None
      \<and> map_of (entries j) ''name_markup'' \<noteq> Some None
      \<and> (case answers j of None \<Rightarrow> True | Some l \<Rightarrow> list_all markup_strings l))"
  by (cases j) simp

lemma markup_strings_update_question:
  "markup_strings j \<Longrightarrow> markup_strings (dict_update j (snd (collect_question ts n)))"
  using question_markup[of ts n]
  by (auto simp add: markup_strings_iff[of "dict_update _ _"] markup_strings_iff[of j]
        entries_update_question map_add_def split: option.splits)

lemma markup_strings_update_answer:
  "markup_strings j \<Longrightarrow> markup_strings (dict_update j (snd (collect_answer ts n)))"
  using answer_text_markup[of ts n] answer_name_markup[of ts n]
  by (auto simp add: markup_strings_iff[of "dict_update _ _"] markup_strings_iff[of j]
        entries_update_answer map_add_def split: option.splits)

lemma markup_strings_update_person:
  "markup_strings j \<Longrightarrow> collect_person n = Some e \<Longrightarrow> markup_strings (dict_update j e)"
  by (auto simp add: markup_strings_iff[of "dict_update _ _"] markup_strings_iff[of j]
        entries_dict_update collect_person_def map_add_def split: option.splits)

lemma markup_strings_post_order:
  "markup_strings c \<Longrightarrow> markup_strings (snd (search_tree_post_order ts hp n c))"
  by (auto simp add: search_tree_post_order_def markup_strings_update_person
        split: option.splits prod.splits
        dest: markup_strings_update_question[of c ts n] markup_strings_update_answer[of c ts n])

lemma markup_strings_search:
  "markup_strings c \<Longrightarrow> markup_strings (snd (search_tree ts hp n c))"
  "markup_strings c \<Longrightarrow> markup_strings (snd (search_children ts cs c))"
proof (induction ts hp n c and ts cs c rule: search_tree_search_children.induct)
  case (1 ts hp tg ats tx cs ta c)
  show ?case
  proof (cases "itemtype_contains (Node tg ats tx cs ta) ''//schema.org/Answer''")
    case True
    show ?thesis
    proof (cases "answers c")
      case None
      then show ?thesis using True 1(3) by simp
    next
      case (Some as)
      obtain cs' a where sc: "search_children ts cs (JObj [] None) = (cs', a)"
        by (cases "search_children ts cs (JObj [] None)")
      obtain r a' where po: "search_tree_post_order ts hp (Node tg ats tx cs' ta) a = (r, a')"
        by (cases "search_tree_post_order ts hp (Node tg ats tx cs' ta) a")
      have "markup_strings a" using 1(1)[OF True Some] sc by simp
      then have "markup_strings a'" using markup_strings_post_order[of a ts hp] po
        by (metis snd_conv)
      moreover have "search_tree ts hp (Node tg ats tx cs ta) c
                       = (r, JObj (entries c) (Some (as @ [a'])))"
        using True Some sc po by simp
      ultimately show ?thesis using 1(3) Some
        by (simp add: markup_strings_iff[of c])
    qed
  next
    case False
    obtain cs' c' where sc: "search_children ts cs c = (cs', c')"
      by (cases "search_children ts cs c")
    have "markup_strings c'" using 1(2)[OF False 1(3)] sc by simp
    then have "markup_strings (snd (search_tree_post_order ts hp (Node tg ats tx cs' ta) c'))"
      by (rule markup_strings_post_order)
    then show ?thesis using False sc by simp
  qed
next
  case (2 ts c)
  then show ?case by simp
next
  case (3 ts child rest c)
  obtain r c' where st: "search_tree ts True child c = (r, c')"
    by (cases "search_tree ts True child c")
  obtain rs c'' where sc: "search_children ts rest c' = (rs, c'')"
    by (cases "search_children ts rest c'")
  have "markup_strings c'" using 3(1)[OF 3(3)] st by simp
  then have "markup_strings c''" using 3(2)[OF st[symmetric]] sc by simp
  then show ?case using st sc by simp
qed

lemma build_question_markup_strings: "markup_strings (build_question ts hp h)"
  unfolding build_question_def by (rule markup_strings_search) simp

lemma build_question_answers: "answers (build_question ts hp h) \<noteq> None"
  unfolding build_question_def using search_keeps_answers_key(1)[of ts hp h "JObj [] (Some [])"]
  by simp

lemma predict_markup_Inr:
  "markup_strings j \<Longrightarrow> has_entry j k \<Longrightarrow> k = ''text_markup'' \<or> k = ''name_markup'' \<Longrightarrow>
   \<exists>l. predict_markup classify j k = Inr l"
  by (auto simp: predict_markup_def has_entry_def markup_strings_iff[of j] split: option.splits)

lemma predict_markup_bound: "predict_markup classify j k \<noteq> Inl UnboundLocalError"
  by (simp add: predict_markup_def split: option.splits)

lemma first_answer_language_Inr:
  "list_all markup_strings as \<Longrightarrow> some_answer_has_text as \<Longrightarrow>
   \<exists>l. first_answer_language classify as = Inr l"
  by (induction as) (auto simp: predict_markup_Inr)

lemma first_answer_language_bound:
  "some_answer_has_text as \<Longrightarrow> first_answer_language classify as \<noteq> Inl UnboundLocalError"
  by (induction as) (auto simp: predict_markup_bound)

lemma predict_question_language_Inr:
  assumes "markup_strings q" and "has_at_least_Q_or_A q = Inr True"
  shows "\<exists>l. predict_question_language classify q = Inr l"
proof (cases "has_entry q ''text_markup''")
  case True
  then show ?thesis using assms(1) by (simp add: predict_question_language_def predict_markup_Inr)
next
  case nt: False
  show ?thesis
  proof (cases "has_entry q ''name_markup''")
    case True
    then show ?thesis using nt assms(1)
      by (simp add: predict_question_language_def predict_markup_Inr)
  next
    case False
    with nt assms(2) obtain as where a: "answers q = Some as" and s: "some_answer_has_text as"
      by (auto simp: has_at_least_Q_or_A_def split: option.splits)
    have "list_all markup_strings as" using assms(1) a by (simp add: markup_strings_iff[of q])
    then show ?thesis using nt False a s
      by (simp add: predict_question_language_def first_answer_language_Inr)
  qed
qed

lemma predict_question_language_bound:
  assumes "has_at_least_Q_or_A q = Inr True"
  shows "predict_question_language classify q \<noteq> Inl UnboundLocalError"
proof (cases "has_entry q ''text_markup'' \<or> has_entry q ''name_markup''")
  case True
  then show ?thesis by (auto simp: predict_question_language_def predict_markup_bound)
next
  case False
  with assms obtain as where a: "answers q = Some as" and s: "some_answer_has_text as"
    by (auto simp: has_at_least_Q_or_A_def split: option.splits)
  then show ?thesis using False
    by (simp add: predict_question_language_def first_answer_language_bound)
qed

text \<open>
  C10. On a question record that passes \<open>has_at_least_Q_or_A\<close>, \<open>predict_question_language\<close>
  never reaches \<^verbatim>\<open>return language\<close> with the variable unbound. Every record the walk
  builds has strings under its markup keys, and on such a record that passes the filter the
  function returns a language label.
\<close>

theorem predict_question_language_total:
  "(has_at_least_Q_or_A q = Inr True \<longrightarrow>
      predict_question_language classify q \<noteq> Inl UnboundLocalError)
   \<and> (markup_strings q \<and> has_at_least_Q_or_A q = Inr True \<longrightarrow>
      (\<exists>l. predict_question_language classify q = Inr l))
   \<and> markup_strings (build_question tostring has_parent html_question)
   \<and> (has_at_least_Q_or_A (build_question tostring has_parent html_question) = Inr True \<longrightarrow>
      (\<exists>l. predict_question_language classify
              (build_question tostring has_parent html_question) = Inr l))"
  using predict_question_language_bound[of q classify]
    predict_question_language_Inr[of q classify]
    predict_question_language_Inr[OF build_question_markup_strings, of tostring has_parent
      html_question classify]
    build_question_markup_strings[of tostring has_parent html_question]
  by simp

theorem predict_question_language_total_witness:
  "has_at_least_Q_or_A
     (JObj [] (Some [JObj [(''status'', Some ''suggestedAnswer'')] None,
                     JObj [(''text_markup'', Some ''hola'')] None])) = Inr True
   \<and> markup_strings
     (JObj [] (Some [JObj [(''status'', Some ''suggestedAnswer'')] None,
                     JObj [(''text_markup'', Some ''hola'')] None]))
   \<and> predict_question_language (\<lambda>s. ''es'')
     (JObj [] (Some [JObj [(''status'', Some ''suggestedAnswer'')] None,
                     JObj [(''text_markup'', Some ''hola'')] None])) \<noteq> Inl UnboundLocalError
   \<and> (\<exists>l. predict_question_language (\<lambda>s. ''es'')
     (JObj [] (Some [JObj [(''status'', Some ''suggestedAnswer'')] None,
                     JObj [(''text_markup'', Some ''hola'')] None])) = Inr l)"
proof -
  have h: "has_at_least_Q_or_A
     (JObj [] (Some [JObj [(''status'', Some ''suggestedAnswer'')] None,
                     JObj [(''text_markup'', Some ''hola'')] None])) = Inr True"
    by (simp add: has_at_least_Q_or_A_def has_entry_def)
  have m: "markup_strings
     (JObj [] (Some [JObj [(''status'', Some ''suggestedAnswer'')] None,
                     JObj [(''text_markup'', Some ''hola'')] None]))"
    by simp
  from predict_question_language_total[where classify = "\<lambda>s. ''es''" and q =
     "JObj [] (Some [JObj [(''status'', Some ''suggestedAnswer'')] None,
                     JObj [(''text_markup'', Some ''hola'')] None])"] h m
  show ?thesis by blast
qed

lemma some_answer_has_text_iff:
  "some_answer_has_text as = (\<exists>a \<in> set as. has_entry a ''text_markup'')"
  by (induction as) auto

lemma has_at_least_build:
  "\<exists>b. has_at_least_Q_or_A (build_question ts hp h) = Inr b"
  using build_question_answers[of ts hp h]
  by (auto simp: has_at_least_Q_or_A_def split: option.splits)

lemma question_loop_retained:
  "\<exists>ls. question_loop ts cl hp hs (jqs, langs)
     = Inr (jqs @ filter (\<lambda>q. has_at_least_Q_or_A q = Inr True) (map (build_question ts hp) hs),
            ls)"
proof (induction hs arbitrary: jqs langs)
  case Nil
  then show ?case by simp
next
  case (Cons h hs)
  obtain b where b: "has_at_least_Q_or_A (build_question ts hp h) = Inr b"
    using has_at_least_build by blast
  show ?case
  proof (cases b)
    case True
    with b have t: "has_at_least_Q_or_A (build_question ts hp h) = Inr True" by simp
    obtain l where l: "predict_question_language cl (build_question ts hp h) = Inr l"
      using predict_question_language_Inr[OF build_question_markup_strings t] by blast
    from Cons[of "jqs @ [build_question ts hp h]" "langs @ [l]"]
    show ?thesis using b True l by (simp add: Let_def)
  next
    case False
    from Cons[of jqs langs] show ?thesis using b False by (simp add: Let_def)
  qed
qed

lemma generate_record_questions:
  "\<exists>ls. question_loop ts cl hp hs ([], [])
     = Inr (filter (\<lambda>q. has_at_least_Q_or_A q = Inr True) (map (build_question ts hp) hs), ls)"
  using question_loop_retained[of ts cl hp hs "[]" "[]"] by simp

lemma retained_has_Q_or_A:
  assumes "has_at_least_Q_or_A q = Inr True"
  shows "has_entry q ''name_markup'' \<or> has_entry q ''text_markup''
         \<or> (\<exists>as. answers q = Some as \<and> (\<exists>a \<in> set as. has_entry a ''text_markup''))"
  using assms
  by (auto simp: has_at_least_Q_or_A_def some_answer_has_text_iff split: if_splits option.splits)

text \<open>
  C1. The record of a page holds, in the order of the page, exactly the question records
  that pass \<open>has_at_least_Q_or_A\<close>; each of them has a \<^verbatim>\<open>name_markup\<close> entry, or a
  \<^verbatim>\<open>text_markup\<close> entry, or an Answer record with a \<^verbatim>\<open>text_markup\<close> entry. No page makes
  the assembly fail.
\<close>

theorem emitted_questions_pass_filter:
  "(\<exists>res. generate_record tostring classify question_uuid warc_id language uri html_root
            = Inr res)
   \<and> (generate_record tostring classify question_uuid warc_id language uri html_root
         = Inr (Some r) \<longrightarrow>
       Questions r
         = filter (\<lambda>q. has_at_least_Q_or_A q = Inr True)
             (map (build_question tostring
                     (\<not> itemtype_contains html_root ''//schema.org/Question''))
                  (get_all_questions html_root))
       \<and> (\<forall>q \<in> set (Questions r).
             has_entry q ''name_markup'' \<or> has_entry q ''text_markup''
             \<or> (\<exists>as. answers q = Some as \<and> (\<exists>a \<in> set as. has_entry a ''text_markup''))))"
proof -
  let ?hp = "\<not> itemtype_contains html_root ''//schema.org/Question''"
  let ?kept = "filter (\<lambda>q. has_at_least_Q_or_A q = Inr True)
             (map (build_question tostring ?hp) (get_all_questions html_root))"
  obtain ls where l: "question_loop tostring classify ?hp (get_all_questions html_root) ([], [])
     = Inr (?kept, ls)"
    using generate_record_questions by blast
  have a: "\<exists>res. generate_record tostring classify question_uuid warc_id language uri html_root
            = Inr res"
    using l by (simp add: generate_record_def)
  have b: "Questions r = ?kept"
    if "generate_record tostring classify question_uuid warc_id language uri html_root
         = Inr (Some r)"
    using that l by (auto simp add: generate_record_def split: if_splits)
  have c: "\<forall>q \<in> set ?kept.
             has_entry q ''name_markup'' \<or> has_entry q ''text_markup''
             \<or> (\<exists>as. answers q = Some as \<and> (\<exists>a \<in> set as. has_entry a ''text_markup''))"
    using retained_has_Q_or_A by simp
  from a b c show ?thesis by simp
qed

theorem emitted_questions_pass_filter_witness:
  "generate_record (\<lambda>n. ''<h1>T</h1>'') (\<lambda>s. ''en'') ''id-1'' ''w-1'' ''en'' ''http://a''
     (Node ''html'' [] None
        [Node ''div'' [(''itemtype'', ''https://schema.org/Question'')] None
           [Node ''h1'' [(''itemprop'', ''name'')] (Some ''T'') [] None] None,
         Node ''div'' [(''itemtype'', ''https://schema.org/Question'')] None
           [Node ''p'' [] (Some ''nothing marked'') [] None] None] None)
     = Inr (Some \<lparr> Language = ''en'', Fasttext_language = ''en'', URI = ''http://a'',
                    UUID = ''id-1'', WARC_ID = ''w-1'',
                    Questions = [JObj [(''name_markup'', Some ''T'')] (Some [])] \<rparr>)
   \<and> filter (\<lambda>q. has_at_least_Q_or_A q = Inr True)
        (map (build_question (\<lambda>n. ''<h1>T</h1>'') True)
           [Node ''div'' [(''itemtype'', ''https://schema.org/Question'')] None
              [Node ''h1'' [(''itemprop'', ''name'')] (Some ''T'') [] None] None,
            Node ''div'' [(''itemtype'', ''https://schema.org/Question'')] None
              [Node ''p'' [] (Some ''nothing marked'') [] None] None])
     = [JObj [(''name_markup'', Some ''T'')] (Some [])]"
proof -
  let ?root = "Node ''html'' [] None
        [Node ''div'' [(''itemtype'', ''https://schema.org/Question'')] None
           [Node ''h1'' [(''itemprop'', ''name'')] (Some ''T'') [] None] None,
         Node ''div'' [(''itemtype'', ''https://schema.org/Question'')] None
           [Node ''p'' [] (Some ''nothing marked'') [] None] None] None"
  let ?r = "\<lparr> Language = ''en'', Fasttext_language = ''en'', URI = ''http://a'',
                    UUID = ''id-1'', WARC_ID = ''w-1'',
                    Questions = [JObj [(''name_markup'', Some ''T'')] (Some [])] \<rparr>"
  have e: "generate_record (\<lambda>n. ''<h1>T</h1>'') (\<lambda>s. ''en'') ''id-1'' ''w-1'' ''en'' ''http://a''
             ?root = Inr (Some ?r)"
    by code_simp
  have g: "get_all_questions ?root =
           [Node ''div'' [(''itemtype'', ''https://schema.org/Question'')] None
              [Node ''h1'' [(''itemprop'', ''name'')] (Some ''T'') [] None] None,
            Node ''div'' [(''itemtype'', ''https://schema.org/Question'')] None
              [Node ''p'' [] (Some ''nothing marked'') [] None] None]"
    by code_simp
  have h: "(\<not> itemtype_contains ?root ''//schema.org/Question'') = True"
    by code_simp
  note t = emitted_questions_pass_filter[where r = ?r and html_root = ?root
      and tostring = "\<lambda>n. ''<h1>T</h1>''" and classify = "\<lambda>s. ''en''" and question_uuid = "''id-1''"
      and warc_id = "''w-1''" and language = "''en''" and uri = "''http://a''"]
  from mp[OF conjunct2[OF t] e]
  have "Questions ?r = filter (\<lambda>q. has_at_least_Q_or_A q = Inr True)
             (map (build_question (\<lambda>n. ''<h1>T</h1>'')
                     (\<not> itemtype_contains ?root ''//schema.org/Question''))
                  (get_all_questions ?root))"
    by (rule conjunct1)
  then have "filter (\<lambda>q. has_at_least_Q_or_A q = Inr True)
             (map (build_question (\<lambda>n. ''<h1>T</h1>'') True)
                  (get_all_questions ?root)) = [JObj [(''name_markup'', Some ''T'')] (Some [])]"
    unfolding h by simp
  then show ?thesis using e unfolding g by (intro conjI)
qed

lemma entries_update_answer_status:
  "map_of (entries (dict_update j (snd (collect_answer ts n)))) ''status''
     = Some (get n ''itemprop'')"
  by (simp add: entries_update_answer map_add_def answer_status)

section \<open>The status of the answer records\<close>

lemma status_from_mono:
  "set ms \<subseteq> set ms' \<Longrightarrow> status_from ms a \<Longrightarrow> status_from ms' a"
  by (auto simp: status_from_def list_ex_iff split: option.splits)

lemma post_order_no_answers_key:
  assumes "answers c = None" and "\<not> itemtype_contains n ''//schema.org/Answer''"
    and "k \<noteq> ''author''"
  shows "map_of (entries (snd (search_tree_post_order ts hp n c))) k = map_of (entries c) k"
  using assms
  by (auto simp: search_tree_post_order_def collect_person_def entries_dict_update map_add_def
      split: option.splits)

lemma itemtype_contains_children:
  "itemtype_contains (Node tg ats tx cs' ta) t = itemtype_contains (Node tg ats tx cs ta) t"
  by (simp add: itemtype_contains_def get_def)

lemma search_no_answers_key:
  "answers c = None \<Longrightarrow> k \<noteq> ''author'' \<Longrightarrow>
   map_of (entries (snd (search_tree ts hp n c))) k = map_of (entries c) k"
  "answers c = None \<Longrightarrow> k \<noteq> ''author'' \<Longrightarrow>
   map_of (entries (snd (search_children ts cs c))) k = map_of (entries c) k"
proof (induction ts hp n c and ts cs c rule: search_tree_search_children.induct)
  case (1 ts hp tg ats tx cs ta c)
  show ?case
  proof (cases "itemtype_contains (Node tg ats tx cs ta) ''//schema.org/Answer''")
    case True
    then show ?thesis using 1(3) by simp
  next
    case False
    obtain cs' c' where sc: "search_children ts cs c = (cs', c')"
      by (cases "search_children ts cs c")
    have e: "map_of (entries c') k = map_of (entries c) k"
      using 1(2)[OF False 1(3) 1(4)] sc by simp
    have n: "answers c' = None"
      using search_keeps_answers_key(2)[of ts cs c] sc 1(3) by simp
    have f: "\<not> itemtype_contains (Node tg ats tx cs' ta) ''//schema.org/Answer''"
      using False by (simp add: itemtype_contains_children[of tg ats tx cs' ta _ cs])
    have "map_of (entries (snd (search_tree_post_order ts hp (Node tg ats tx cs' ta) c'))) k
            = map_of (entries c') k"
      by (rule post_order_no_answers_key[OF n f 1(4)])
    then show ?thesis using False sc e by simp
  qed
next
  case (2 ts c)
  then show ?case by simp
next
  case (3 ts child rest c)
  obtain r c' where st: "search_tree ts True child c = (r, c')"
    by (cases "search_tree ts True child c")
  obtain rs c'' where sc: "search_children ts rest c' = (rs, c'')"
    by (cases "search_children ts rest c'")
  have e1: "map_of (entries c') k = map_of (entries c) k" using 3(1)[OF 3(3) 3(4)] st by simp
  have n: "answers c' = None" using search_keeps_answers_key(1)[of ts True child c] st 3(3) by simp
  have "map_of (entries c'') k = map_of (entries c') k"
    using 3(2)[OF st[symmetric] n 3(4)] sc by simp
  then show ?case using st sc e1 by simp
qed

lemma search_tree_answer_record:
  assumes a: "itemtype_contains n ''//schema.org/Answer''" and c: "answers c = Some as"
  shows "\<exists>a. answers (snd (search_tree ts hp n c)) = Some (as @ [a]) \<and> answers a = None
             \<and> map_of (entries a) ''status''
                 = (if itemtype_contains n ''//schema.org/Question'' then None
                    else Some (get n ''itemprop''))"
proof -
  obtain tg ats tx cs ta where n: "n = Node tg ats tx cs ta" by (cases n)
  obtain cs' b where sc: "search_children ts cs (JObj [] None) = (cs', b)"
    by (cases "search_children ts cs (JObj [] None)")
  let ?n' = "Node tg ats tx cs' ta"
  have bn: "answers b = None"
    using search_keeps_answers_key(2)[of ts cs "JObj [] None"] sc by simp
  have bs: "map_of (entries b) ''status'' = None"
    using search_no_answers_key(2)[of "JObj [] None" "''status''" ts cs] sc by simp
  obtain r a' where po: "search_tree_post_order ts hp ?n' b = (r, a')"
    by (cases "search_tree_post_order ts hp ?n' b")
  have an: "answers a' = None" using answers_post_order[of ts hp ?n' b] po bn by simp
  have st: "map_of (entries a') ''status''
              = (if itemtype_contains n ''//schema.org/Question'' then None
                 else Some (get n ''itemprop''))"
  proof (cases "itemtype_contains n ''//schema.org/Question''")
    case True
    then have "itemtype_contains ?n' ''//schema.org/Question''"
      by (simp add: n itemtype_contains_children[of tg ats tx cs' ta _ cs])
    then have "a' = b" using po bn by (simp add: search_tree_post_order_def)
    then show ?thesis using True bs by simp
  next
    case False
    then have q': "\<not> itemtype_contains ?n' ''//schema.org/Question''"
      by (simp add: n itemtype_contains_children[of tg ats tx cs' ta _ cs])
    have a': "itemtype_contains ?n' ''//schema.org/Answer''"
      using a by (simp add: n itemtype_contains_children[of tg ats tx cs' ta _ cs])
    have "a' = dict_update b (snd (collect_answer ts ?n'))"
      using po q' a' by (simp add: search_tree_post_order_def split: prod.splits)
    then show ?thesis using False
      by (simp add: entries_update_answer_status n get_def)
  qed
  have "search_tree ts hp n c = (r, JObj (entries c) (Some (as @ [a'])))"
    using a c sc po by (simp add: n)
  with an st show ?thesis by simp
qed

lemma search_appends_answers:
  "\<exists>new. answers (snd (search_tree ts hp n c)) = map_option (\<lambda>as. as @ new) (answers c)
      \<and> list_all (\<lambda>a. answers a = None \<and> status_from (preorder n) a) new"
  "\<exists>new. answers (snd (search_children ts cs c)) = map_option (\<lambda>as. as @ new) (answers c)
      \<and> list_all (\<lambda>a. answers a = None \<and> status_from (concat (map preorder cs)) a) new"
proof (induction ts hp n c and ts cs c rule: search_tree_search_children.induct)
  case (1 ts hp tg ats tx cs ta c)
  let ?n = "Node tg ats tx cs ta"
  show ?case
  proof (cases "itemtype_contains ?n ''//schema.org/Answer''")
    case True
    show ?thesis
    proof (cases "answers c")
      case None
      then have "answers (snd (search_tree ts hp ?n c)) = map_option (\<lambda>as. as @ []) (answers c)"
        using True by simp
      then show ?thesis by (intro exI[of _ "[]"]) simp
    next
      case (Some as)
      from search_tree_answer_record[OF True Some, of ts hp]
      obtain a where r: "answers (snd (search_tree ts hp ?n c)) = Some (as @ [a])"
        and an: "answers a = None"
        and st: "map_of (entries a) ''status''
                 = (if itemtype_contains ?n ''//schema.org/Question'' then None
                    else Some (get ?n ''itemprop''))"
        by blast
      have "status_from (preorder ?n) a"
        using st True by (auto simp: status_from_def split: if_splits)
      then show ?thesis using r an Some by (intro exI[of _ "[a]"]) simp
    qed
  next
    case False
    obtain cs' c' where sc: "search_children ts cs c = (cs', c')"
      by (cases "search_children ts cs c")
    from 1(2)[OF False] sc obtain new where
      a: "answers c' = map_option (\<lambda>as. as @ new) (answers c)"
      and l: "list_all (\<lambda>a. answers a = None \<and> status_from (concat (map preorder cs)) a) new"
      by auto
    have "answers (snd (search_tree ts hp ?n c)) = answers c'"
      using False sc by simp
    moreover have "list_all (\<lambda>a. answers a = None \<and> status_from (preorder ?n) a) new"
      using l by (auto simp: list_all_iff intro: status_from_mono[rotated])
    ultimately show ?thesis using a by (intro exI[of _ new]) simp
  qed
next
  case (2 ts c)
  show ?case by (intro exI[of _ "[]"]) (simp add: option.map_ident)
next
  case (3 ts child rest c)
  obtain r c' where st: "search_tree ts True child c = (r, c')"
    by (cases "search_tree ts True child c")
  obtain rs c'' where sc: "search_children ts rest c' = (rs, c'')"
    by (cases "search_children ts rest c'")
  from 3(1) st obtain new1 where
    a1: "answers c' = map_option (\<lambda>as. as @ new1) (answers c)"
    and l1: "list_all (\<lambda>a. answers a = None \<and> status_from (preorder child) a) new1"
    by auto
  from 3(2)[OF st[symmetric]] sc obtain new2 where
    a2: "answers c'' = map_option (\<lambda>as. as @ new2) (answers c')"
    and l2: "list_all (\<lambda>a. answers a = None \<and> status_from (concat (map preorder rest)) a) new2"
    by auto
  have "answers (snd (search_children ts (child # rest) c))
          = map_option (\<lambda>as. as @ (new1 @ new2)) (answers c)"
    using st sc a1 a2 by (cases "answers c") simp_all
  moreover have "list_all (\<lambda>a. answers a = None
                     \<and> status_from (concat (map preorder (child # rest))) a) (new1 @ new2)"
    using l1 l2 by (auto simp: list_all_iff intro: status_from_mono[rotated])
  ultimately show ?case by (intro exI[of _ "new1 @ new2"]) simp
qed

lemma get_all_questions_subtree:
  "h \<in> set (get_all_questions n) \<Longrightarrow> set (preorder h) \<subseteq> set (preorder n)"
proof (induction n rule: get_all_questions.induct)
  case (1 tg ats tx cs ta)
  show ?case
  proof (cases "itemtype_contains (Node tg ats tx cs ta) ''//schema.org/Question''")
    case True
    then show ?thesis using 1(2) by simp
  next
    case False
    with 1(2) obtain c where c: "c \<in> set cs" and h: "h \<in> set (get_all_questions c)" by auto
    from 1(1)[OF False c h] c show ?thesis by auto
  qed
qed

lemma build_question_answer_records:
  "\<exists>as. answers (build_question ts hp h) = Some as
        \<and> list_all (\<lambda>a. answers a = None \<and> status_from (preorder h) a) as"
  using search_appends_answers(1)[of ts hp h "JObj [] (Some [])"]
  by (auto simp: build_question_def)

lemma generate_record_Questions:
  assumes "generate_record ts cl uuid warc lang uri root = Inr (Some r)"
  shows "Questions r
           = filter (\<lambda>q. has_at_least_Q_or_A q = Inr True)
               (map (build_question ts (\<not> itemtype_contains root ''//schema.org/Question''))
                    (get_all_questions root))"
proof -
  obtain ls where
    "question_loop ts cl (\<not> itemtype_contains root ''//schema.org/Question'')
       (get_all_questions root) ([], [])
     = Inr (filter (\<lambda>q. has_at_least_Q_or_A q = Inr True)
              (map (build_question ts (\<not> itemtype_contains root ''//schema.org/Question''))
                   (get_all_questions root)), ls)"
    using generate_record_questions by blast
  with assms show ?thesis by (auto simp add: generate_record_def split: if_splits)
qed

lemma emitted_question_record:
  assumes g: "generate_record ts cl uuid warc lang uri root = Inr (Some r)"
    and q: "q \<in> set (Questions r)"
  shows "map_of (entries q) ''name_markup'' \<noteq> Some None
         \<and> map_of (entries q) ''text_markup'' \<noteq> Some None
         \<and> (\<exists>as. answers q = Some as
               \<and> list_all (\<lambda>a. answers a = None
                                \<and> map_of (entries a) ''name_markup'' \<noteq> Some None
                                \<and> map_of (entries a) ''text_markup'' \<noteq> Some None
                                \<and> status_from (preorder root) a) as)"
proof -
  let ?hp = "\<not> itemtype_contains root ''//schema.org/Question''"
  from q generate_record_Questions[OF g]
  obtain h where h: "h \<in> set (get_all_questions root)" and qb: "q = build_question ts ?hp h"
    by auto
  have m: "markup_strings q" unfolding qb by (rule build_question_markup_strings)
  obtain as where a: "answers q = Some as"
    and l: "list_all (\<lambda>a. answers a = None \<and> status_from (preorder h) a) as"
    using build_question_answer_records[of ts ?hp h] qb by auto
  have ma: "list_all markup_strings as" using m a by (simp add: markup_strings_iff[of q])
  have "list_all (\<lambda>a. answers a = None
                                \<and> map_of (entries a) ''name_markup'' \<noteq> Some None
                                \<and> map_of (entries a) ''text_markup'' \<noteq> Some None
                                \<and> status_from (preorder root) a) as"
    unfolding list_all_iff
  proof
    fix a assume ain: "a \<in> set as"
    have "markup_strings a" using ma ain by (simp add: list_all_iff)
    then have "map_of (entries a) ''name_markup'' \<noteq> Some None
               \<and> map_of (entries a) ''text_markup'' \<noteq> Some None"
      by (simp add: markup_strings_iff[of a])
    moreover have "answers a = None" "status_from (preorder h) a"
      using l ain by (simp_all add: list_all_iff)
    moreover have "status_from (preorder root) a"
      using status_from_mono[OF get_all_questions_subtree[OF h]] \<open>status_from (preorder h) a\<close> .
    ultimately show "answers a = None
                                \<and> map_of (entries a) ''name_markup'' \<noteq> Some None
                                \<and> map_of (entries a) ''text_markup'' \<noteq> Some None
                                \<and> status_from (preorder root) a" by simp
  qed
  with m a show ?thesis by (simp add: markup_strings_iff[of q])
qed




end
